theory Spec2Isabelle
  imports Main
begin

section \<open>The model definitions of reddit.js\<close>

text \<open>
  The program is a schema declaration for the Sequelize object-relational mapper:
  three calls of \<^verbatim>\<open>db.define\<close>, the associations \<^verbatim>\<open>User.hasMany(Content)\<close> and
  \<^verbatim>\<open>Content.belongsToMany(User, {through: Vote, as: 'Votes'})\<close>, and \<^verbatim>\<open>db.sync()\<close>,
  which creates the tables. The embedding keeps the declarations as data: a registry of
  models that each call extends or updates, exactly in the order of the source. The
  table store further down reads every constraint it enforces (nullability, uniqueness,
  defaults, primary key, foreign keys and their delete rules) from that registry.
\<close>

datatype data_type = STRING | BOOLEAN | INTEGER | DATE

datatype val = IntV nat | StrV string | BoolV bool

datatype reference_option = CASCADE | SET_NULL | NO_ACTION

record column =
  col_name :: string
  col_type :: data_type
  allowNull :: bool
  isUnique :: bool
  autoIncrement :: bool
  defaultValue :: "val option"

record reference =
  foreignKey :: string
  referencesTable :: string
  onDelete :: reference_option
  onUpdate :: reference_option

record model =
  modelName :: string
  tableName :: string
  attributes :: "column list"
  primaryKeys :: "string list"
  foreignKeys :: "reference list"

text \<open>
  An attribute written as a bare type (\<^verbatim>\<open>username: Sequelize.STRING\<close>) carries none of the
  options \<^verbatim>\<open>allowNull\<close>, \<^verbatim>\<open>unique\<close>, \<^verbatim>\<open>defaultValue\<close>: the column is nullable, not unique and
  has no default. README.md shows the outcome for \<^verbatim>\<open>upVote: Sequelize.BOOLEAN\<close>:
  \<^verbatim>\<open>`upVote` tinyint(1) DEFAULT NULL\<close>.
\<close>

definition plain_attribute :: "string \<times> data_type \<Rightarrow> column" where
  "plain_attribute a =
     \<lparr>col_name = fst a, col_type = snd a, allowNull = True, isUnique = False,
      autoIncrement = False, defaultValue = None\<rparr>"

definition id_column :: column where
  "id_column =
     \<lparr>col_name = ''id'', col_type = INTEGER, allowNull = False, isUnique = False,
      autoIncrement = True, defaultValue = None\<rparr>"

definition timestamp_column :: "string \<Rightarrow> column" where
  "timestamp_column n =
     \<lparr>col_name = n, col_type = DATE, allowNull = False, isUnique = False,
      autoIncrement = False, defaultValue = None\<rparr>"

definition key_column :: "string \<Rightarrow> bool \<Rightarrow> column" where
  "key_column n may_be_null =
     \<lparr>col_name = n, col_type = INTEGER, allowNull = may_be_null, isUnique = False,
      autoIncrement = False, defaultValue = None\<rparr>"

text \<open>
  \<^verbatim>\<open>db.define(name, attributes)\<close>: the table is named by the plural of the model; it gets
  the auto-incrementing primary key \<^verbatim>\<open>id\<close>, the declared attributes, and the two
  timestamps \<^verbatim>\<open>createdAt\<close> and \<^verbatim>\<open>updatedAt\<close> (both \<^verbatim>\<open>NOT NULL\<close> in README.md).
\<close>

definition db_define :: "string \<Rightarrow> (string \<times> data_type) list \<Rightarrow> model list \<Rightarrow> model list" where
  "db_define name attrs db =
     db @ [\<lparr>modelName = name, tableName = name @ ''s'',
            attributes = id_column # map plain_attribute attrs
                         @ [timestamp_column ''createdAt'', timestamp_column ''updatedAt''],
            primaryKeys = [''id''], foreignKeys = []\<rparr>]"

definition find_model :: "model list \<Rightarrow> string \<Rightarrow> model option" where
  "find_model db name = find (\<lambda>m. modelName m = name) db"

text \<open>
  \<^verbatim>\<open>Source.hasMany(Target)\<close> with no options: the target table gets the column
  \<^verbatim>\<open><source>Id\<close>, nullable since nothing says otherwise, referencing the source table.
  With no \<^verbatim>\<open>onDelete\<close> option, the mapper's rule for a one-to-many association is
  \<^verbatim>\<open>SET NULL\<close> on delete when the key may be null and \<^verbatim>\<open>CASCADE\<close> when it may not, and
  \<^verbatim>\<open>CASCADE\<close> on update.
\<close>

definition hasMany :: "string \<Rightarrow> string \<Rightarrow> model list \<Rightarrow> model list" where
  "hasMany source target db =
     (case find_model db source of
        None \<Rightarrow> db
      | Some s \<Rightarrow>
          (let key = key_column (source @ ''Id'') True
           in map (\<lambda>m. if modelName m = target
                         then m\<lparr>attributes := attributes m @ [key],
                                foreignKeys := foreignKeys m @
                                  [\<lparr>foreignKey = col_name key, referencesTable = tableName s,
                                    onDelete = (if allowNull key then SET_NULL else CASCADE),
                                    onUpdate = CASCADE\<rparr>]\<rparr>
                         else m) db))"

text \<open>
  \<^verbatim>\<open>Source.belongsToMany(Target, {through: Through})\<close>: the join table loses the
  auto-incrementing \<^verbatim>\<open>id\<close>; it gets the two key columns, both \<^verbatim>\<open>NOT NULL\<close>, which together
  are its primary key, and both foreign keys cascade on delete and on update. This is
  the \<^verbatim>\<open>CREATE TABLE `votes`\<close> of README.md:
  \<^verbatim>\<open>PRIMARY KEY (`userId`,`contentId`)\<close>, and for each key
  \<^verbatim>\<open>FOREIGN KEY ... ON DELETE CASCADE ON UPDATE CASCADE\<close>.
\<close>

definition belongsToMany :: "string \<Rightarrow> string \<Rightarrow> string \<Rightarrow> model list \<Rightarrow> model list" where
  "belongsToMany source target through db =
     (case (find_model db source, find_model db target) of
        (Some s, Some t) \<Rightarrow>
          map (\<lambda>m. if modelName m = through
                    then m\<lparr>attributes :=
                             filter (\<lambda>c. \<not> autoIncrement c) (attributes m)
                             @ [key_column (target @ ''Id'') False,
                                key_column (source @ ''Id'') False],
                           primaryKeys := [target @ ''Id'', source @ ''Id''],
                           foreignKeys := foreignKeys m @
                             [\<lparr>foreignKey = target @ ''Id'', referencesTable = tableName t,
                               onDelete = CASCADE, onUpdate = CASCADE\<rparr>,
                              \<lparr>foreignKey = source @ ''Id'', referencesTable = tableName s,
                               onDelete = CASCADE, onUpdate = CASCADE\<rparr>]\<rparr>
                    else m) db
      | _ \<Rightarrow> db)"

text \<open>The statements of reddit.js, in their order.\<close>

definition User :: string where
  "User = ''user''"

definition Content :: string where
  "Content = ''content''"

definition Vote :: string where
  "Vote = ''vote''"

definition reddit_models :: "model list" where
  "reddit_models =
     belongsToMany Content User Vote
       (hasMany User Content
         (db_define Vote [(''upVote'', BOOLEAN)]
           (db_define Content [(''url'', STRING), (''title'', STRING)]
             (db_define User [(''username'', STRING), (''password'', STRING), (''email'', STRING)]
               []))))"

subsection \<open>Reading the schema\<close>

definition find_table :: "model list \<Rightarrow> string \<Rightarrow> model option" where
  "find_table db t = find (\<lambda>m. tableName m = t) db"

definition find_column :: "model list \<Rightarrow> string \<Rightarrow> string \<Rightarrow> column option" where
  "find_column db t c =
     (case find_table db t of
        None \<Rightarrow> None
      | Some m \<Rightarrow> find (\<lambda>a. col_name a = c) (attributes m))"

definition nullable :: "model list \<Rightarrow> string \<Rightarrow> string \<Rightarrow> bool" where
  "nullable db t c = (case find_column db t c of None \<Rightarrow> False | Some a \<Rightarrow> allowNull a)"

definition unique_column :: "model list \<Rightarrow> string \<Rightarrow> string \<Rightarrow> bool" where
  "unique_column db t c = (case find_column db t c of None \<Rightarrow> False | Some a \<Rightarrow> isUnique a)"

definition default_of :: "model list \<Rightarrow> string \<Rightarrow> string \<Rightarrow> val option" where
  "default_of db t c = (case find_column db t c of None \<Rightarrow> None | Some a \<Rightarrow> defaultValue a)"

definition primary_key_of :: "model list \<Rightarrow> string \<Rightarrow> string list" where
  "primary_key_of db t = (case find_table db t of None \<Rightarrow> [] | Some m \<Rightarrow> primaryKeys m)"

definition find_reference :: "model list \<Rightarrow> string \<Rightarrow> string \<Rightarrow> reference option" where
  "find_reference db t c =
     (case find_table db t of
        None \<Rightarrow> None
      | Some m \<Rightarrow> find (\<lambda>r. foreignKey r = c) (foreignKeys m))"

definition on_delete_of :: "model list \<Rightarrow> string \<Rightarrow> string \<Rightarrow> reference_option option" where
  "on_delete_of db t c = map_option onDelete (find_reference db t c)"


section \<open>The tables that \<^verbatim>\<open>db.sync()\<close> creates\<close>

text \<open>
  One row type per table. A column that SQL lets be \<^verbatim>\<open>NULL\<close> is an option; whether a
  \<^verbatim>\<open>NULL\<close> is accepted is decided when the row is written, from the schema. The keys of a
  vote are never absent: a vote is written for a user and a content item.
\<close>

record user =
  user_id :: nat
  username :: "string option"
  password :: "string option"
  email :: "string option"
  user_createdAt :: nat
  user_updatedAt :: nat

record content =
  content_id :: nat
  url :: "string option"
  title :: "string option"
  content_createdAt :: nat
  content_updatedAt :: nat
  content_userId :: "nat option"

record vote =
  upVote :: "bool option"
  vote_createdAt :: nat
  vote_updatedAt :: nat
  vote_userId :: nat
  vote_contentId :: nat

record database =
  schema :: "model list"
  users :: "user list"
  contents :: "content list"
  votes :: "vote list"
  next_user_id :: nat
  next_content_id :: nat

datatype db_error =
    NotNullViolation string string
  | UniqueConstraintError string "string list"
  | ForeignKeyConstraintError string string

text \<open>\<^verbatim>\<open>db.sync()\<close>: the tables are created empty; auto-increment starts at 1.\<close>

definition sync :: "model list \<Rightarrow> database" where
  "sync db =
     \<lparr>schema = db, users = [], contents = [], votes = [],
      next_user_id = 1, next_content_id = 1\<rparr>"

subsection \<open>The checks of an insert\<close>

text \<open>
  A value that the caller leaves out is stored as the default of its column, \<^verbatim>\<open>NULL\<close>
  when the column has none. The insert is refused when a column that is not nullable
  would hold \<^verbatim>\<open>NULL\<close>, when the value of a unique column is in use, or when a foreign
  key has no row to refer to; the first failing check is the error.
\<close>

definition string_default :: "model list \<Rightarrow> string \<Rightarrow> string \<Rightarrow> string option" where
  "string_default db t c = (case default_of db t c of Some (StrV x) \<Rightarrow> Some x | _ \<Rightarrow> None)"

definition bool_default :: "model list \<Rightarrow> string \<Rightarrow> string \<Rightarrow> bool option" where
  "bool_default db t c = (case default_of db t c of Some (BoolV x) \<Rightarrow> Some x | _ \<Rightarrow> None)"

definition stored :: "'a option \<Rightarrow> 'a option \<Rightarrow> 'a option" where
  "stored given dflt = (case given of None \<Rightarrow> dflt | Some x \<Rightarrow> Some x)"

definition not_null_check :: "model list \<Rightarrow> string \<Rightarrow> string \<Rightarrow> bool \<Rightarrow> db_error option" where
  "not_null_check db t c is_null =
     (if is_null \<and> \<not> nullable db t c then Some (NotNullViolation t c) else None)"

definition unique_check :: "model list \<Rightarrow> string \<Rightarrow> string \<Rightarrow> bool \<Rightarrow> db_error option" where
  "unique_check db t c in_use =
     (if in_use \<and> unique_column db t c then Some (UniqueConstraintError t [c]) else None)"

definition reference_check :: "model list \<Rightarrow> string \<Rightarrow> string \<Rightarrow> bool \<Rightarrow> db_error option" where
  "reference_check db t c unmatched =
     (if unmatched \<and> find_reference db t c \<noteq> None
      then Some (ForeignKeyConstraintError t c) else None)"

fun first_error :: "db_error option list \<Rightarrow> db_error option" where
  "first_error [] = None"
| "first_error (None # es) = first_error es"
| "first_error (Some e # es) = Some e"

definition taken :: "'a option \<Rightarrow> 'a option list \<Rightarrow> bool" where
  "taken v col = (v \<noteq> None \<and> v \<in> set col)"

subsection \<open>\<^verbatim>\<open>Model.create\<close>, \<^verbatim>\<open>Model.findById\<close> and \<^verbatim>\<open>instance.destroy\<close>\<close>

text \<open>
  \<^verbatim>\<open>User.create(values)\<close>: the identifier is the next auto-increment value and both
  timestamps are the time of the call.
\<close>

definition User_create ::
  "string option \<Rightarrow> string option \<Rightarrow> string option \<Rightarrow> nat \<Rightarrow> database
     \<Rightarrow> (db_error + user) \<times> database" where
  "User_create un pw em now s =
     (let db = schema s;
          row = \<lparr>user_id = next_user_id s,
                 username = stored un (string_default db ''users'' ''username''),
                 password = stored pw (string_default db ''users'' ''password''),
                 email = stored em (string_default db ''users'' ''email''),
                 user_createdAt = now, user_updatedAt = now\<rparr>
      in case first_error
           [not_null_check db ''users'' ''username'' (username row = None),
            not_null_check db ''users'' ''password'' (password row = None),
            not_null_check db ''users'' ''email'' (email row = None),
            unique_check db ''users'' ''username'' (taken (username row) (map username (users s))),
            unique_check db ''users'' ''password'' (taken (password row) (map password (users s))),
            unique_check db ''users'' ''email'' (taken (email row) (map email (users s)))] of
           Some e \<Rightarrow> (Inl e, s)
         | None \<Rightarrow>
             (Inr row, s\<lparr>users := users s @ [row], next_user_id := Suc (next_user_id s)\<rparr>))"

definition User_findById :: "nat \<Rightarrow> database \<Rightarrow> user option" where
  "User_findById i s = find (\<lambda>u. user_id u = i) (users s)"

definition Content_findById :: "nat \<Rightarrow> database \<Rightarrow> content option" where
  "Content_findById i s = find (\<lambda>c. content_id c = i) (contents s)"

definition Vote_find :: "nat \<Rightarrow> nat \<Rightarrow> database \<Rightarrow> vote option" where
  "Vote_find uid cid s = find (\<lambda>v. vote_userId v = uid \<and> vote_contentId v = cid) (votes s)"

definition dangling :: "nat option \<Rightarrow> nat list \<Rightarrow> bool" where
  "dangling k ids = (case k of None \<Rightarrow> False | Some i \<Rightarrow> i \<notin> set ids)"

definition Content_create ::
  "string option \<Rightarrow> string option \<Rightarrow> nat option \<Rightarrow> nat \<Rightarrow> database
     \<Rightarrow> (db_error + content) \<times> database" where
  "Content_create u t owner now s =
     (let db = schema s;
          row = \<lparr>content_id = next_content_id s,
                 url = stored u (string_default db ''contents'' ''url''),
                 title = stored t (string_default db ''contents'' ''title''),
                 content_createdAt = now, content_updatedAt = now,
                 content_userId = owner\<rparr>
      in case first_error
           [not_null_check db ''contents'' ''url'' (url row = None),
            not_null_check db ''contents'' ''title'' (title row = None),
            not_null_check db ''contents'' ''userId'' (owner = None),
            unique_check db ''contents'' ''url'' (taken (url row) (map url (contents s))),
            unique_check db ''contents'' ''title'' (taken (title row) (map title (contents s))),
            reference_check db ''contents'' ''userId'' (dangling owner (map user_id (users s)))] of
           Some e \<Rightarrow> (Inl e, s)
         | None \<Rightarrow>
             (Inr row,
              s\<lparr>contents := contents s @ [row], next_content_id := Suc (next_content_id s)\<rparr>))"

text \<open>
  The value of a vote in a named column, and the projection of a vote on the columns of
  the primary key: two votes collide when they agree on every column of the key.
\<close>

definition vote_column :: "vote \<Rightarrow> string \<Rightarrow> val option" where
  "vote_column v c =
     (if c = ''userId'' then Some (IntV (vote_userId v))
      else if c = ''contentId'' then Some (IntV (vote_contentId v))
      else if c = ''upVote'' then map_option BoolV (upVote v)
      else if c = ''createdAt'' then Some (IntV (vote_createdAt v))
      else if c = ''updatedAt'' then Some (IntV (vote_updatedAt v))
      else None)"

definition vote_key :: "string list \<Rightarrow> vote \<Rightarrow> val option list" where
  "vote_key pk v = map (vote_column v) pk"

definition key_taken :: "string list \<Rightarrow> vote \<Rightarrow> vote list \<Rightarrow> bool" where
  "key_taken pk v vs = (pk \<noteq> [] \<and> vote_key pk v \<in> set (map (vote_key pk) vs))"

text \<open>
  The insert into the join table that the association method \<^verbatim>\<open>addVote\<close> issues for a
  content item and a user, with the attribute \<^verbatim>\<open>upVote\<close> of the join row.
\<close>

definition Vote_create ::
  "nat \<Rightarrow> nat \<Rightarrow> bool option \<Rightarrow> nat \<Rightarrow> database \<Rightarrow> (db_error + vote) \<times> database" where
  "Vote_create uid cid up now s =
     (let db = schema s;
          pk = primary_key_of db ''votes'';
          row = \<lparr>upVote = stored up (bool_default db ''votes'' ''upVote''),
                 vote_createdAt = now, vote_updatedAt = now,
                 vote_userId = uid, vote_contentId = cid\<rparr>
      in case first_error
           [not_null_check db ''votes'' ''upVote'' (upVote row = None),
            (if key_taken pk row (votes s) then Some (UniqueConstraintError ''votes'' pk)
             else None),
            reference_check db ''votes'' ''userId'' (uid \<notin> set (map user_id (users s))),
            reference_check db ''votes'' ''contentId'' (cid \<notin> set (map content_id (contents s)))] of
           Some e \<Rightarrow> (Inl e, s)
         | None \<Rightarrow> (Inr row, s\<lparr>votes := votes s @ [row]\<rparr>))"

text \<open>
  Deleting rows of \<^verbatim>\<open>contents\<close>: the rule of the foreign key \<^verbatim>\<open>votes.contentId\<close> decides
  what happens to the votes on them. A key column of a vote cannot be made \<^verbatim>\<open>NULL\<close>, so
  any rule but \<^verbatim>\<open>CASCADE\<close> refuses the delete while a vote refers to the rows.
\<close>

definition remove_contents :: "(content \<Rightarrow> bool) \<Rightarrow> database \<Rightarrow> db_error + database" where
  "remove_contents doomed s =
     (let ids = map content_id (filter doomed (contents s));
          kept = filter (\<lambda>c. \<not> doomed c) (contents s)
      in case on_delete_of (schema s) ''votes'' ''contentId'' of
           None \<Rightarrow> Inr (s\<lparr>contents := kept\<rparr>)
         | Some CASCADE \<Rightarrow>
             Inr (s\<lparr>contents := kept,
                    votes := filter (\<lambda>v. vote_contentId v \<notin> set ids) (votes s)\<rparr>)
         | Some _ \<Rightarrow>
             (if filter (\<lambda>v. vote_contentId v \<in> set ids) (votes s) = []
              then Inr (s\<lparr>contents := kept\<rparr>)
              else Inl (ForeignKeyConstraintError ''votes'' ''contentId'')))"

definition Content_destroy :: "nat \<Rightarrow> database \<Rightarrow> (db_error + unit) \<times> database" where
  "Content_destroy cid s =
     (case remove_contents (\<lambda>c. content_id c = cid) s of
        Inl e \<Rightarrow> (Inl e, s)
      | Inr s' \<Rightarrow> (Inr (), s'))"

text \<open>
  Deleting a row of \<^verbatim>\<open>users\<close>: first the rule of \<^verbatim>\<open>contents.userId\<close> (the key that
  \<^verbatim>\<open>User.hasMany(Content)\<close> added), then the rule of \<^verbatim>\<open>votes.userId\<close>, then the row itself.
  A refused step leaves the tables as they were.
\<close>

definition release_contents :: "nat \<Rightarrow> database \<Rightarrow> db_error + database" where
  "release_contents uid s =
     (let owned = (\<lambda>c. content_userId c = Some uid)
      in case on_delete_of (schema s) ''contents'' ''userId'' of
           None \<Rightarrow> Inr s
         | Some CASCADE \<Rightarrow> remove_contents owned s
         | Some SET_NULL \<Rightarrow>
             (if nullable (schema s) ''contents'' ''userId''
              then Inr (s\<lparr>contents :=
                     map (\<lambda>c. if owned c then c\<lparr>content_userId := None\<rparr> else c) (contents s)\<rparr>)
              else if filter owned (contents s) = [] then Inr s
              else Inl (NotNullViolation ''contents'' ''userId''))
         | Some NO_ACTION \<Rightarrow>
             (if filter owned (contents s) = [] then Inr s
              else Inl (ForeignKeyConstraintError ''contents'' ''userId'')))"

definition release_votes :: "nat \<Rightarrow> database \<Rightarrow> db_error + database" where
  "release_votes uid s =
     (case on_delete_of (schema s) ''votes'' ''userId'' of
        None \<Rightarrow> Inr s
      | Some CASCADE \<Rightarrow> Inr (s\<lparr>votes := filter (\<lambda>v. vote_userId v \<noteq> uid) (votes s)\<rparr>)
      | Some _ \<Rightarrow>
          (if filter (\<lambda>v. vote_userId v = uid) (votes s) = [] then Inr s
           else Inl (ForeignKeyConstraintError ''votes'' ''userId'')))"

definition User_destroy :: "nat \<Rightarrow> database \<Rightarrow> (db_error + unit) \<times> database" where
  "User_destroy uid s =
     (case release_contents uid s of
        Inl e \<Rightarrow> (Inl e, s)
      | Inr s1 \<Rightarrow>
          (case release_votes uid s1 of
             Inl e \<Rightarrow> (Inl e, s)
           | Inr s2 \<Rightarrow> (Inr (), s2\<lparr>users := filter (\<lambda>u. user_id u \<noteq> uid) (users s2)\<rparr>)))"

subsection \<open>Sequences of operations on the tables\<close>

datatype operation =
    CreateUser "string option" "string option" "string option" nat
  | CreateContent "string option" "string option" "nat option" nat
  | CreateVote nat nat "bool option" nat
  | DestroyUser nat
  | DestroyContent nat

fun perform :: "operation \<Rightarrow> database \<Rightarrow> database" where
  "perform (CreateUser un pw em now) s = snd (User_create un pw em now s)"
| "perform (CreateContent u t owner now) s = snd (Content_create u t owner now s)"
| "perform (CreateVote uid cid up now) s = snd (Vote_create uid cid up now s)"
| "perform (DestroyUser uid) s = snd (User_destroy uid s)"
| "perform (DestroyContent cid) s = snd (Content_destroy cid s)"

fun run :: "operation list \<Rightarrow> database \<Rightarrow> database" where
  "run [] s = s"
| "run (x # xs) s = run xs (perform x s)"


section \<open>The data functions of the exercise\<close>

text \<open>
  README.md asks for three data functions, \<^verbatim>\<open>createNewUser\<close>, \<^verbatim>\<open>createNewContent\<close> and
  \<^verbatim>\<open>voteOnContent\<close>; reddit.js does not contain them. They are modelled here on the tables
  above. Each takes a completion callback, which receives the created row or an error
  together with the tables as the call left them.
\<close>

text \<open>
  Modelled from the spec: the error kinds that the data functions report, which
  reddit.js does not define: \<^verbatim>\<open>NotFound\<close> (a referenced entity does not exist),
  \<^verbatim>\<open>ConstraintViolation\<close> (a required field is missing, or a uniqueness constraint is
  violated), \<^verbatim>\<open>DuplicateVote\<close> (uniqueness violation on the composite key of a vote) and
  \<^verbatim>\<open>ProviderError\<close> (connectivity or storage failure).
\<close>

datatype error = NotFound | ConstraintViolation | DuplicateVote | ProviderError

text \<open>
  Modelled from the spec: how a refusal by the tables is reported as one of these kinds;
  reddit.js has no such translation. Only a uniqueness violation on \<^verbatim>\<open>votes\<close> is a
  \<^verbatim>\<open>DuplicateVote\<close>.
\<close>

fun as_error :: "db_error \<Rightarrow> error" where
  "as_error (NotNullViolation t c) = ConstraintViolation"
| "as_error (UniqueConstraintError t cs) =
     (if t = ''votes'' then DuplicateVote else ConstraintViolation)"
| "as_error (ForeignKeyConstraintError t c) = NotFound"

text \<open>
  Modelled from the spec: \<^verbatim>\<open>createNewUser(username, password, callback)\<close>, missing from
  reddit.js. It inserts a new User record and invokes the callback with the created
  record, or with the error. It takes no email.
\<close>

definition createNewUser ::
  "string \<Rightarrow> string \<Rightarrow> ((error + user) \<Rightarrow> database \<Rightarrow> 'a) \<Rightarrow> nat \<Rightarrow> database \<Rightarrow> 'a" where
  "createNewUser name pass callback now s =
     (case User_create (Some name) (Some pass) None now s of
        (Inl e, s') \<Rightarrow> callback (Inl (as_error e)) s'
      | (Inr u, s') \<Rightarrow> callback (Inr u) s')"

text \<open>
  Modelled from the spec: \<^verbatim>\<open>createNewContent(userId, url, title, callback)\<close>, missing from
  reddit.js. It looks the User up by userId; if not found, it fails with \<^verbatim>\<open>NotFound\<close> and
  creates no Content row; if found, it creates the Content record with that owner in one
  insert.
\<close>

definition createNewContent ::
  "nat \<Rightarrow> string \<Rightarrow> string \<Rightarrow> ((error + content) \<Rightarrow> database \<Rightarrow> 'a) \<Rightarrow> nat \<Rightarrow> database \<Rightarrow> 'a" where
  "createNewContent userId u t callback now s =
     (case User_findById userId s of
        None \<Rightarrow> callback (Inl NotFound) s
      | Some owner \<Rightarrow>
          (case Content_create (Some u) (Some t) (Some userId) now s of
             (Inl e, s') \<Rightarrow> callback (Inl (as_error e)) s'
           | (Inr c, s') \<Rightarrow> callback (Inr c) s'))"

text \<open>
  Modelled from the spec: \<^verbatim>\<open>voteOnContent(contentId, userId, isUpVote, callback)\<close>, missing
  from reddit.js. Both ids must reference existing records (\<^verbatim>\<open>NotFound\<close> otherwise); the
  vote is then attempted as a single insert whose primary key is the pair, so that a
  duplicate is rejected by the table and reported as \<^verbatim>\<open>DuplicateVote\<close>.
\<close>

definition voteOnContent ::
  "nat \<Rightarrow> nat \<Rightarrow> bool \<Rightarrow> ((error + vote) \<Rightarrow> database \<Rightarrow> 'a) \<Rightarrow> nat \<Rightarrow> database \<Rightarrow> 'a" where
  "voteOnContent contentId userId isUpVote callback now s =
     (case User_findById userId s of
        None \<Rightarrow> callback (Inl NotFound) s
      | Some voter \<Rightarrow>
          (case Content_findById contentId s of
             None \<Rightarrow> callback (Inl NotFound) s
           | Some item \<Rightarrow>
               (case Vote_create userId contentId (Some isUpVote) now s of
                  (Inl e, s') \<Rightarrow> callback (Inl (as_error e)) s'
                | (Inr v, s') \<Rightarrow> callback (Inr v) s')))"

section \<open>The data functions, request by request\<close>

text \<open>
  A data function reaches the tables through requests to the persistence provider: a
  lookup by identifier or an insert. The provider serves one request at a time, and
  each request is one of the table operations above. A call in progress is either
  finished with its result, or pending on a request with what it does with the reply.
\<close>

datatype request =
    FindUser nat
  | FindContent nat
  | InsertUser "string option" "string option" "string option" nat
  | InsertContent "string option" "string option" "nat option" nat
  | InsertVote nat nat "bool option" nat

datatype reply =
    UserFound "user option"
  | ContentFound "content option"
  | UserInserted "db_error + user"
  | ContentInserted "db_error + content"
  | VoteInserted "db_error + vote"

fun serve :: "request \<Rightarrow> database \<Rightarrow> reply \<times> database" where
  "serve (FindUser i) s = (UserFound (User_findById i s), s)"
| "serve (FindContent i) s = (ContentFound (Content_findById i s), s)"
| "serve (InsertUser un pw em now) s =
     (case User_create un pw em now s of (r, s') \<Rightarrow> (UserInserted r, s'))"
| "serve (InsertContent u t owner now) s =
     (case Content_create u t owner now s of (r, s') \<Rightarrow> (ContentInserted r, s'))"
| "serve (InsertVote uid cid up now) s =
     (case Vote_create uid cid up now s of (r, s') \<Rightarrow> (VoteInserted r, s'))"

text \<open>
  One step of a call, the run of a call to its end, the requests it makes on the way
  and the tables as they stand before each request and at the end.
\<close>

datatype 'r call = Finished 'r | Pending request "reply \<Rightarrow> 'r call"

definition advance :: "'r call \<Rightarrow> database \<Rightarrow> 'r call \<times> database" where
  "advance c s =
     (case c of
        Finished r \<Rightarrow> (c, s)
      | Pending q k \<Rightarrow> (case serve q s of (rep, s') \<Rightarrow> (k rep, s')))"

primrec complete :: "'r call \<Rightarrow> database \<Rightarrow> 'r \<times> database" where
  "complete (Finished r) s = (r, s)"
| "complete (Pending q k) s = (case serve q s of (rep, s') \<Rightarrow> complete (k rep) s')"

primrec requests :: "'r call \<Rightarrow> database \<Rightarrow> request list" where
  "requests (Finished r) s = []"
| "requests (Pending q k) s = q # (case serve q s of (rep, s') \<Rightarrow> requests (k rep) s')"

primrec stores :: "'r call \<Rightarrow> database \<Rightarrow> database list" where
  "stores (Finished r) s = [s]"
| "stores (Pending q k) s = s # (case serve q s of (rep, s') \<Rightarrow> stores (k rep) s')"

text \<open>
  Two calls in progress at once: the schedule says whose request the provider serves
  next, \<open>True\<close> for the first call and \<open>False\<close> for the second. A finished call lets its
  turn pass.
\<close>

fun interleave ::
  "bool list \<Rightarrow> 'a call \<Rightarrow> 'b call \<Rightarrow> database \<Rightarrow> 'a call \<times> 'b call \<times> database" where
  "interleave [] a b s = (a, b, s)"
| "interleave (turn # sched) a b s =
     (if turn
      then (case advance a s of (a', s') \<Rightarrow> interleave sched a' b s')
      else (case advance b s of (b', s') \<Rightarrow> interleave sched a b' s'))"

text \<open>
  Modelled from the spec: the requests of \<^verbatim>\<open>createNewContent\<close>, missing from reddit.js:
  look the User up by userId; if not found, fail with \<^verbatim>\<open>NotFound\<close>; if found, one insert of
  the Content record that carries the owner.
\<close>

definition createNewContent_call :: "nat \<Rightarrow> string \<Rightarrow> string \<Rightarrow> nat \<Rightarrow> (error + content) call" where
  "createNewContent_call userId u t now =
     Pending (FindUser userId)
       (\<lambda>found. case found of
          UserFound (Some owner) \<Rightarrow>
            Pending (InsertContent (Some u) (Some t) (Some userId) now)
              (\<lambda>done. case done of
                 ContentInserted (Inr c) \<Rightarrow> Finished (Inr c)
               | ContentInserted (Inl e) \<Rightarrow> Finished (Inl (as_error e))
               | _ \<Rightarrow> Finished (Inl ProviderError))
        | UserFound None \<Rightarrow> Finished (Inl NotFound)
        | _ \<Rightarrow> Finished (Inl ProviderError))"

text \<open>
  Modelled from the spec: the requests of \<^verbatim>\<open>voteOnContent\<close>, missing from reddit.js, last
  request first: the single insert of the vote, whose refusal on the composite key is
  reported as \<^verbatim>\<open>DuplicateVote\<close>; before it the lookup of the content item; before that
  the lookup of the user.
\<close>

definition vote_insert :: "nat \<Rightarrow> nat \<Rightarrow> bool \<Rightarrow> nat \<Rightarrow> (error + vote) call" where
  "vote_insert contentId userId isUpVote now =
     Pending (InsertVote userId contentId (Some isUpVote) now)
       (\<lambda>done. case done of
          VoteInserted (Inr v) \<Rightarrow> Finished (Inr v)
        | VoteInserted (Inl e) \<Rightarrow> Finished (Inl (as_error e))
        | _ \<Rightarrow> Finished (Inl ProviderError))"

definition vote_find_content :: "nat \<Rightarrow> nat \<Rightarrow> bool \<Rightarrow> nat \<Rightarrow> (error + vote) call" where
  "vote_find_content contentId userId isUpVote now =
     Pending (FindContent contentId)
       (\<lambda>found. case found of
          ContentFound (Some item) \<Rightarrow> vote_insert contentId userId isUpVote now
        | ContentFound None \<Rightarrow> Finished (Inl NotFound)
        | _ \<Rightarrow> Finished (Inl ProviderError))"

definition voteOnContent_call :: "nat \<Rightarrow> nat \<Rightarrow> bool \<Rightarrow> nat \<Rightarrow> (error + vote) call" where
  "voteOnContent_call contentId userId isUpVote now =
     Pending (FindUser userId)
       (\<lambda>found. case found of
          UserFound (Some voter) \<Rightarrow> vote_find_content contentId userId isUpVote now
        | UserFound None \<Rightarrow> Finished (Inl NotFound)
        | _ \<Rightarrow> Finished (Inl ProviderError))"

subsection \<open>The phases of a vote call\<close>

text \<open>
  On tables that hold the user and the content item, a call of \<^verbatim>\<open>voteOnContent\<close> is
  about to look up the user, about to look up the content item, about to insert, or
  finished, having stored its vote or having been refused as a duplicate. Two calls for
  one pair race correctly when the votes are those of the start followed by what the two
  calls have stored, not both have stored, and a refused call faces one that has stored.
\<close>

datatype phase = AtUser | AtContent | AtInsert | Stored | Refused

fun vote_at :: "nat \<Rightarrow> nat \<Rightarrow> bool \<Rightarrow> nat \<Rightarrow> phase \<Rightarrow> (error + vote) call" where
  "vote_at c u b now AtUser = voteOnContent_call c u b now"
| "vote_at c u b now AtContent = vote_find_content c u b now"
| "vote_at c u b now AtInsert = vote_insert c u b now"
| "vote_at c u b now Stored =
     Finished (Inr \<lparr>upVote = Some b, vote_createdAt = now, vote_updatedAt = now,
                    vote_userId = u, vote_contentId = c\<rparr>)"
| "vote_at c u b now Refused = Finished (Inl DuplicateVote)"

fun steps_left :: "phase \<Rightarrow> nat" where
  "steps_left AtUser = 3"
| "steps_left AtContent = 2"
| "steps_left AtInsert = 1"
| "steps_left Stored = 0"
| "steps_left Refused = 0"

definition written :: "nat \<Rightarrow> nat \<Rightarrow> bool \<Rightarrow> nat \<Rightarrow> phase \<Rightarrow> vote list" where
  "written c u b now p =
     (if p = Stored
      then [\<lparr>upVote = Some b, vote_createdAt = now, vote_updatedAt = now,
             vote_userId = u, vote_contentId = c\<rparr>]
      else [])"

definition racing ::
  "database \<Rightarrow> nat \<Rightarrow> nat \<Rightarrow> bool \<Rightarrow> nat \<Rightarrow> bool \<Rightarrow> nat \<Rightarrow> phase \<Rightarrow> phase \<Rightarrow> database \<Rightarrow> bool" where
  "racing s0 c u b1 t1 b2 t2 pa pb s \<longleftrightarrow>
     s = s0\<lparr>votes := votes s0 @ written c u b1 t1 pa @ written c u b2 t2 pb\<rparr>
     \<and> \<not> (pa = Stored \<and> pb = Stored)
     \<and> (pa = Refused \<longrightarrow> pb = Stored)
     \<and> (pb = Refused \<longrightarrow> pa = Stored)"

section \<open>Consistency of the tables\<close>

text \<open>
  The tables are consistent when they are the tables of reddit.js, identifiers are
  distinct and below the next auto-increment value, no two votes share the pair
  (userId, contentId), the owner of a content item is absent or an existing user, and
  every vote refers to an existing user and an existing content item.
\<close>

definition vote_pair :: "vote \<Rightarrow> nat \<times> nat" where
  "vote_pair v = (vote_userId v, vote_contentId v)"

definition consistent :: "database \<Rightarrow> bool" where
  "consistent s \<longleftrightarrow>
     schema s = reddit_models
     \<and> distinct (map user_id (users s))
     \<and> list_all (\<lambda>u. user_id u < next_user_id s) (users s)
     \<and> distinct (map content_id (contents s))
     \<and> list_all (\<lambda>c. content_id c < next_content_id s) (contents s)
     \<and> distinct (map vote_pair (votes s))
     \<and> list_all (\<lambda>c. \<not> dangling (content_userId c) (map user_id (users s))) (contents s)
     \<and> list_all (\<lambda>v. vote_userId v \<in> set (map user_id (users s))
                     \<and> vote_contentId v \<in> set (map content_id (contents s))) (votes s)"


section \<open>The schema that reddit.js declares\<close>

text \<open>What the declarations compute, column by column.\<close>

lemmas schema_defs =
  reddit_models_def User_def Content_def Vote_def db_define_def hasMany_def belongsToMany_def
  find_model_def find_table_def find_column_def find_reference_def
  plain_attribute_def id_column_def timestamp_column_def key_column_def Let_def

lemma users_columns:
  "nullable reddit_models ''users'' ''username''"
  "nullable reddit_models ''users'' ''password''"
  "nullable reddit_models ''users'' ''email''"
  "\<not> unique_column reddit_models ''users'' ''username''"
  "\<not> unique_column reddit_models ''users'' ''password''"
  "\<not> unique_column reddit_models ''users'' ''email''"
  "string_default reddit_models ''users'' ''username'' = None"
  "string_default reddit_models ''users'' ''password'' = None"
  "string_default reddit_models ''users'' ''email'' = None"
  by (simp_all add: schema_defs nullable_def unique_column_def string_default_def default_of_def)

lemma contents_columns:
  "nullable reddit_models ''contents'' ''url''"
  "nullable reddit_models ''contents'' ''title''"
  "nullable reddit_models ''contents'' ''userId''"
  "\<not> unique_column reddit_models ''contents'' ''url''"
  "\<not> unique_column reddit_models ''contents'' ''title''"
  "string_default reddit_models ''contents'' ''url'' = None"
  "string_default reddit_models ''contents'' ''title'' = None"
  "find_reference reddit_models ''contents'' ''userId'' =
     Some \<lparr>foreignKey = ''userId'', referencesTable = ''users'',
           onDelete = SET_NULL, onUpdate = CASCADE\<rparr>"
  "on_delete_of reddit_models ''contents'' ''userId'' = Some SET_NULL"
  by (simp_all add: schema_defs nullable_def unique_column_def string_default_def default_of_def
      on_delete_of_def)

lemma votes_columns:
  "nullable reddit_models ''votes'' ''upVote''"
  "bool_default reddit_models ''votes'' ''upVote'' = None"
  "primary_key_of reddit_models ''votes'' = [''userId'', ''contentId'']"
  "find_reference reddit_models ''votes'' ''userId'' =
     Some \<lparr>foreignKey = ''userId'', referencesTable = ''users'',
           onDelete = CASCADE, onUpdate = CASCADE\<rparr>"
  "find_reference reddit_models ''votes'' ''contentId'' =
     Some \<lparr>foreignKey = ''contentId'', referencesTable = ''contents'',
           onDelete = CASCADE, onUpdate = CASCADE\<rparr>"
  "on_delete_of reddit_models ''votes'' ''userId'' = Some CASCADE"
  "on_delete_of reddit_models ''votes'' ''contentId'' = Some CASCADE"
  by (simp_all add: schema_defs nullable_def bool_default_def default_of_def primary_key_of_def
      on_delete_of_def)

text \<open>The checks are live: a table without the column takes no value for it.\<close>

lemma User_create_needs_column:
  "User_create None pw em now (sync []) = (Inl (NotNullViolation ''users'' ''username''), sync [])"
  by (simp add: User_create_def Let_def sync_def not_null_check_def nullable_def
      find_column_def find_table_def stored_def string_default_def default_of_def)

text \<open>On the tables of reddit.js the operations reduce to the following.\<close>

lemma User_create_reddit:
  assumes "schema s = reddit_models"
  shows "User_create un pw em now s =
    (Inr \<lparr>user_id = next_user_id s, username = un, password = pw, email = em,
          user_createdAt = now, user_updatedAt = now\<rparr>,
     s\<lparr>users := users s @ [\<lparr>user_id = next_user_id s, username = un, password = pw, email = em,
          user_createdAt = now, user_updatedAt = now\<rparr>],
       next_user_id := Suc (next_user_id s)\<rparr>)"
  using assms
  by (simp add: User_create_def Let_def users_columns not_null_check_def unique_check_def
      stored_def split: option.splits)

lemma Content_create_reddit:
  assumes "schema s = reddit_models"
  shows "Content_create u t owner now s =
    (if dangling owner (map user_id (users s))
     then (Inl (ForeignKeyConstraintError ''contents'' ''userId''), s)
     else (Inr \<lparr>content_id = next_content_id s, url = u, title = t,
                content_createdAt = now, content_updatedAt = now, content_userId = owner\<rparr>,
           s\<lparr>contents := contents s @ [\<lparr>content_id = next_content_id s, url = u, title = t,
                content_createdAt = now, content_updatedAt = now, content_userId = owner\<rparr>],
             next_content_id := Suc (next_content_id s)\<rparr>))"
  using assms
  by (simp add: Content_create_def Let_def contents_columns not_null_check_def unique_check_def
      reference_check_def stored_def split: option.splits)

lemma key_taken_reddit:
  "key_taken [''userId'', ''contentId''] v vs \<longleftrightarrow> vote_pair v \<in> set (map vote_pair vs)"
  by (auto simp: key_taken_def vote_key_def vote_column_def vote_pair_def image_iff)

lemma Vote_create_reddit:
  assumes "schema s = reddit_models"
  shows "Vote_create uid cid up now s =
    (if (uid, cid) \<in> set (map vote_pair (votes s))
     then (Inl (UniqueConstraintError ''votes'' [''userId'', ''contentId'']), s)
     else if uid \<notin> set (map user_id (users s))
       then (Inl (ForeignKeyConstraintError ''votes'' ''userId''), s)
     else if cid \<notin> set (map content_id (contents s))
       then (Inl (ForeignKeyConstraintError ''votes'' ''contentId''), s)
     else (Inr \<lparr>upVote = up, vote_createdAt = now, vote_updatedAt = now,
                vote_userId = uid, vote_contentId = cid\<rparr>,
           s\<lparr>votes := votes s @ [\<lparr>upVote = up, vote_createdAt = now, vote_updatedAt = now,
                vote_userId = uid, vote_contentId = cid\<rparr>]\<rparr>))"
  using assms
  by (simp add: Vote_create_def Let_def votes_columns not_null_check_def
      reference_check_def stored_def key_taken_reddit vote_pair_def split: option.splits)



lemma votes_refer_to_contents:
  assumes "consistent s" and "v \<in> set (votes s)"
  shows "vote_contentId v \<in> content_id ` set (contents s)"
  using assms by (auto simp: consistent_def list_all_iff)

lemma doomed_ids:
  "set (map content_id (filter (\<lambda>c. content_id c = cid) cs)) =
     (if cid \<in> content_id ` set cs then {cid} else {})"
  by auto

lemma Content_destroy_reddit:
  assumes "consistent s"
  shows "Content_destroy cid s =
    (Inr (), s\<lparr>contents := filter (\<lambda>c. content_id c \<noteq> cid) (contents s),
              votes := filter (\<lambda>v. vote_contentId v \<noteq> cid) (votes s)\<rparr>)"
proof -
  have sch: "schema s = reddit_models"
    using assms by (simp add: consistent_def)
  have "filter (\<lambda>v. vote_contentId v \<notin> set (map content_id (filter (\<lambda>c. content_id c = cid) (contents s))))
          (votes s)
      = filter (\<lambda>v. vote_contentId v \<noteq> cid) (votes s)"
  proof (rule filter_cong [OF refl])
    fix v assume "v \<in> set (votes s)"
    then have "vote_contentId v \<in> content_id ` set (contents s)"
      by (rule votes_refer_to_contents [OF assms])
    then show "(vote_contentId v \<notin> set (map content_id (filter (\<lambda>c. content_id c = cid) (contents s))))
        = (vote_contentId v \<noteq> cid)"
      unfolding doomed_ids by auto
  qed
  then show ?thesis
    by (simp add: Content_destroy_def remove_contents_def Let_def sch votes_columns)
qed

lemma User_destroy_reddit:
  assumes "schema s = reddit_models"
  shows "User_destroy uid s =
    (Inr (), s\<lparr>contents := map (\<lambda>c. if content_userId c = Some uid
                                      then c\<lparr>content_userId := None\<rparr> else c) (contents s),
              votes := filter (\<lambda>v. vote_userId v \<noteq> uid) (votes s),
              users := filter (\<lambda>u. user_id u \<noteq> uid) (users s)\<rparr>)"
  using assms
  by (simp add: User_destroy_def release_contents_def release_votes_def Let_def
      contents_columns votes_columns)

lemma consistent_sync: "consistent (sync reddit_models)"
  by (simp add: consistent_def sync_def)

lemma consistent_User_create:
  assumes "consistent s"
  shows "consistent (snd (User_create un pw em now s))"
proof -
  have sch: "schema s = reddit_models"
    using assms by (simp add: consistent_def)
  show ?thesis
    using assms
    by (auto simp: User_create_reddit [OF sch] consistent_def list_all_iff dangling_def
        split: option.splits)
qed

lemma consistent_Content_create:
  assumes "consistent s"
  shows "consistent (snd (Content_create u t owner now s))"
proof -
  have sch: "schema s = reddit_models"
    using assms by (simp add: consistent_def)
  show ?thesis
    using assms
    by (auto simp: Content_create_reddit [OF sch] consistent_def list_all_iff)
qed

lemma consistent_Vote_create:
  assumes "consistent s"
  shows "consistent (snd (Vote_create uid cid up now s))"
proof -
  have sch: "schema s = reddit_models"
    using assms by (simp add: consistent_def)
  show ?thesis
    using assms
    by (auto simp: Vote_create_reddit [OF sch] consistent_def list_all_iff vote_pair_def)
qed

lemma consistent_Content_destroy:
  assumes "consistent s"
  shows "consistent (snd (Content_destroy cid s))"
  using assms
  by (auto simp: Content_destroy_reddit [OF assms] consistent_def list_all_iff distinct_map_filter)

lemma remaining_ids:
  "set (map user_id (filter (\<lambda>u. user_id u \<noteq> uid) us)) = set (map user_id us) - {uid}"
  by auto

lemma consistent_User_destroy:
  assumes "consistent s"
  shows "consistent (snd (User_destroy uid s))"
proof -
  let ?f = "\<lambda>c. if content_userId c = Some uid then c\<lparr>content_userId := None\<rparr> else c"
  have sch: "schema s = reddit_models"
    using assms by (simp add: consistent_def)
  have ids: "map content_id (map ?f (contents s)) = map content_id (contents s)"
    by simp
  have owners: "\<not> dangling (content_userId c) (map user_id (filter (\<lambda>u. user_id u \<noteq> uid) (users s)))"
    if "c \<in> set (map ?f (contents s))" for c
    unfolding dangling_def remaining_ids
    using that assms by (auto simp: consistent_def list_all_iff dangling_def split: option.splits)
  have voters: "vote_userId v \<in> set (map user_id (filter (\<lambda>u. user_id u \<noteq> uid) (users s)))"
    if "v \<in> set (filter (\<lambda>v. vote_userId v \<noteq> uid) (votes s))" for v
    unfolding remaining_ids
    using that assms by (auto simp: consistent_def list_all_iff)
  have voted: "vote_contentId v \<in> set (map content_id (map ?f (contents s)))"
    if "v \<in> set (filter (\<lambda>v. vote_userId v \<noteq> uid) (votes s))" for v
    unfolding ids using that assms by (auto simp: consistent_def list_all_iff)
  have below: "content_id c < next_content_id s" if "c \<in> set (map ?f (contents s))" for c
    using that assms by (auto simp: consistent_def list_all_iff)
  have "distinct (map content_id (map ?f (contents s)))"
    unfolding ids using assms by (simp add: consistent_def)
  moreover have "distinct (map user_id (filter (\<lambda>u. user_id u \<noteq> uid) (users s)))"
    using assms by (simp add: consistent_def distinct_map_filter)
  moreover have "distinct (map vote_pair (filter (\<lambda>v. vote_userId v \<noteq> uid) (votes s)))"
    using assms by (simp add: consistent_def distinct_map_filter)
  moreover have "list_all (\<lambda>u. user_id u < next_user_id s) (filter (\<lambda>u. user_id u \<noteq> uid) (users s))"
    using assms by (simp add: consistent_def list_all_iff)
  ultimately show ?thesis
    using owners voters voted below
    by (simp add: User_destroy_reddit [OF sch] consistent_def list_all_iff sch del: set_map set_filter map_map)
qed

lemma consistent_perform: "consistent s \<Longrightarrow> consistent (perform x s)"
  by (cases x)
    (simp_all add: consistent_User_create consistent_Content_create consistent_Vote_create
       consistent_User_destroy consistent_Content_destroy)

lemma consistent_run: "consistent s \<Longrightarrow> consistent (run xs s)"
  by (induction xs arbitrary: s) (simp_all add: consistent_perform)

lemma at_most_one_per_key:
  "distinct (map f xs) \<Longrightarrow> length (filter (\<lambda>x. f x = k) xs) \<le> 1"
  by (induction xs) (auto simp: filter_empty_conv image_iff)

lemma Vote_find_pair:
  "Vote_find uid cid s \<noteq> None \<longleftrightarrow> (uid, cid) \<in> set (map vote_pair (votes s))"
  by (auto simp: Vote_find_def find_None_iff vote_pair_def image_iff)

lemma User_findById_ids:
  "User_findById i s \<noteq> None \<longleftrightarrow> i \<in> set (map user_id (users s))"
  by (auto simp: User_findById_def find_None_iff image_iff)

lemma Content_findById_ids:
  "Content_findById i s \<noteq> None \<longleftrightarrow> i \<in> set (map content_id (contents s))"
  by (auto simp: Content_findById_def find_None_iff image_iff)

lemma example_tables:
  "run [CreateUser (Some ''alice'') (Some ''secret'') None 1,
        CreateContent (Some ''http://x.com'') (Some ''X'') (Some 1) 2] (sync reddit_models) =
     \<lparr>schema = reddit_models,
      users = [\<lparr>user_id = 1, username = Some ''alice'', password = Some ''secret'',
                email = None, user_createdAt = 1, user_updatedAt = 1\<rparr>],
      contents = [\<lparr>content_id = 1, url = Some ''http://x.com'', title = Some ''X'',
                   content_createdAt = 2, content_updatedAt = 2, content_userId = Some 1\<rparr>],
      votes = [], next_user_id = 2, next_content_id = 2\<rparr>"
  by (simp add: sync_def User_create_reddit Content_create_reddit dangling_def)

lemma example_vote:
  "run [CreateUser (Some ''alice'') (Some ''secret'') None 1,
        CreateContent (Some ''http://x.com'') (Some ''X'') (Some 1) 2,
        CreateVote 1 1 (Some True) 3] (sync reddit_models) =
     \<lparr>schema = reddit_models,
      users = [\<lparr>user_id = 1, username = Some ''alice'', password = Some ''secret'',
                email = None, user_createdAt = 1, user_updatedAt = 1\<rparr>],
      contents = [\<lparr>content_id = 1, url = Some ''http://x.com'', title = Some ''X'',
                   content_createdAt = 2, content_updatedAt = 2, content_userId = Some 1\<rparr>],
      votes = [\<lparr>upVote = Some True, vote_createdAt = 3, vote_updatedAt = 3,
                vote_userId = 1, vote_contentId = 1\<rparr>],
      next_user_id = 2, next_content_id = 2\<rparr>"
  by (simp add: sync_def User_create_reddit Content_create_reddit Vote_create_reddit
      dangling_def vote_pair_def)

lemma find_fresh:
  "P x \<Longrightarrow> \<not> list_ex P xs \<Longrightarrow> find P (xs @ [x]) = Some x"
  by (induction xs) auto

text \<open>
  The data functions are the runs of their calls, and a vote call moves from phase to
  phase; the race of two vote calls for one pair keeps its invariant under every
  schedule.
\<close>

lemma complete_createNewContent_call:
  "createNewContent userId u t callback now s =
     (case complete (createNewContent_call userId u t now) s of (r, s') \<Rightarrow> callback r s')"
  by (simp add: createNewContent_call_def createNewContent_def
      split: option.splits prod.splits sum.splits)

lemma complete_voteOnContent_call:
  "voteOnContent contentId userId isUpVote callback now s =
     (case complete (voteOnContent_call contentId userId isUpVote now) s of
        (r, s') \<Rightarrow> callback r s')"
  by (simp add: voteOnContent_call_def vote_find_content_def vote_insert_def voteOnContent_def
      split: option.splits prod.splits sum.splits)


lemma advance_vote_at:
  assumes "schema s = reddit_models"
    and "u \<in> set (map user_id (users s))"
    and "c \<in> set (map content_id (contents s))"
  shows "advance (vote_at c u b now p) s =
     (case p of
        AtUser \<Rightarrow> (vote_at c u b now AtContent, s)
      | AtContent \<Rightarrow> (vote_at c u b now AtInsert, s)
      | AtInsert \<Rightarrow>
          (if (u, c) \<in> set (map vote_pair (votes s))
           then (vote_at c u b now Refused, s)
           else (vote_at c u b now Stored,
                 s\<lparr>votes := votes s @
                     [\<lparr>upVote = Some b, vote_createdAt = now, vote_updatedAt = now,
                       vote_userId = u, vote_contentId = c\<rparr>]\<rparr>))
      | Stored \<Rightarrow> (vote_at c u b now Stored, s)
      | Refused \<Rightarrow> (vote_at c u b now Refused, s))"
proof -
  obtain voter where voter: "User_findById u s = Some voter"
    using assms(2) User_findById_ids [of u s] by blast
  obtain item where item: "Content_findById c s = Some item"
    using assms(3) Content_findById_ids [of c s] by blast
  show ?thesis
  proof (cases p)
    case AtUser
    then show ?thesis
      by (simp add: advance_def voteOnContent_call_def voter)
  next
    case AtContent
    then show ?thesis
      by (simp add: advance_def vote_find_content_def item)
  next
    case AtInsert
    then show ?thesis
      using assms(2,3)
      by (simp add: advance_def vote_insert_def Vote_create_reddit [OF assms(1)])
  next
    case Stored
    then show ?thesis
      by (simp add: advance_def)
  next
    case Refused
    then show ?thesis
      by (simp add: advance_def)
  qed
qed


lemma racing_facts:
  assumes "racing s0 c u b1 t1 b2 t2 pa pb s"
  shows "schema s = schema s0" and "users s = users s0" and "contents s = contents s0"
    and "(u, c) \<in> set (map vote_pair (votes s)) \<longleftrightarrow>
         (u, c) \<in> set (map vote_pair (votes s0)) \<or> pa = Stored \<or> pb = Stored"
  using assms by (auto simp: racing_def written_def vote_pair_def)

lemma racing_sym:
  "racing s0 c u b1 t1 b2 t2 pa pb s \<longleftrightarrow> racing s0 c u b2 t2 b1 t1 pb pa s"
  by (auto simp: racing_def written_def)

lemma racing_turn:
  assumes "schema s0 = reddit_models"
    and "u \<in> set (map user_id (users s0))"
    and "c \<in> set (map content_id (contents s0))"
    and "(u, c) \<notin> set (map vote_pair (votes s0))"
    and "racing s0 c u b1 t1 b2 t2 pa pb s"
  shows "\<exists>pa' s'. advance (vote_at c u b1 t1 pa) s = (vote_at c u b1 t1 pa', s')
           \<and> racing s0 c u b1 t1 b2 t2 pa' pb s'
           \<and> steps_left pa' = steps_left pa - 1"
proof -
  note facts = racing_facts [OF assms(5)]
  let ?row = "\<lparr>upVote = Some b1, vote_createdAt = t1, vote_updatedAt = t1,
                       vote_userId = u, vote_contentId = c\<rparr>"
  have step: "advance (vote_at c u b1 t1 pa) s =
     (case pa of
        AtUser \<Rightarrow> (vote_at c u b1 t1 AtContent, s)
      | AtContent \<Rightarrow> (vote_at c u b1 t1 AtInsert, s)
      | AtInsert \<Rightarrow>
          (if (u, c) \<in> set (map vote_pair (votes s))
           then (vote_at c u b1 t1 Refused, s)
           else (vote_at c u b1 t1 Stored, s\<lparr>votes := votes s @ [?row]\<rparr>))
      | Stored \<Rightarrow> (vote_at c u b1 t1 Stored, s)
      | Refused \<Rightarrow> (vote_at c u b1 t1 Refused, s))"
    using assms(1-3) by (intro advance_vote_at) (simp_all add: facts)
  show ?thesis
  proof (cases pa)
    case AtUser
    with assms(5) show ?thesis
      unfolding step by (intro exI [of _ AtContent] exI [of _ s]) (simp add: racing_def written_def)
  next
    case AtContent
    with assms(5) show ?thesis
      unfolding step by (intro exI [of _ AtInsert] exI [of _ s]) (simp add: racing_def written_def)
  next
    case AtInsert
    show ?thesis
    proof (cases "pb = Stored")
      case True
      with AtInsert assms(5) facts(4) show ?thesis
        unfolding step by (intro exI [of _ Refused] exI [of _ s]) (simp add: racing_def written_def)
    next
      case False
      with AtInsert assms(4,5) facts(4) show ?thesis
        unfolding step
        by (intro exI [of _ Stored] exI [of _ "s\<lparr>votes := votes s @ [?row]\<rparr>"])
          (auto simp: racing_def written_def)
    qed
  next
    case Stored
    with assms(5) show ?thesis
      unfolding step by (intro exI [of _ Stored] exI [of _ s]) simp
  next
    case Refused
    with assms(5) show ?thesis
      unfolding step by (intro exI [of _ Refused] exI [of _ s]) simp
  qed
qed

lemma racing_interleave:
  assumes "schema s0 = reddit_models"
    and "u \<in> set (map user_id (users s0))"
    and "c \<in> set (map content_id (contents s0))"
    and "(u, c) \<notin> set (map vote_pair (votes s0))"
    and "racing s0 c u b1 t1 b2 t2 pa pb s"
  shows "\<exists>pa' pb' s'.
           interleave sched (vote_at c u b1 t1 pa) (vote_at c u b2 t2 pb) s =
             (vote_at c u b1 t1 pa', vote_at c u b2 t2 pb', s')
           \<and> racing s0 c u b1 t1 b2 t2 pa' pb' s'
           \<and> steps_left pa' = steps_left pa - length (filter (\<lambda>turn. turn) sched)
           \<and> steps_left pb' = steps_left pb - length (filter (\<lambda>turn. \<not> turn) sched)"
  using assms(5)
proof (induction sched arbitrary: pa pb s)
  case Nil
  then show ?case by auto
next
  case (Cons turn sched)
  show ?case
  proof (cases turn)
    case True
    obtain pa1 s1 where adv: "advance (vote_at c u b1 t1 pa) s = (vote_at c u b1 t1 pa1, s1)"
      and inv: "racing s0 c u b1 t1 b2 t2 pa1 pb s1"
      and left: "steps_left pa1 = steps_left pa - 1"
      using racing_turn [OF assms(1-4) Cons.prems] by blast
    from Cons.IH [OF inv] obtain pa' pb' s' where
      "interleave sched (vote_at c u b1 t1 pa1) (vote_at c u b2 t2 pb) s1 =
             (vote_at c u b1 t1 pa', vote_at c u b2 t2 pb', s')"
      "racing s0 c u b1 t1 b2 t2 pa' pb' s'"
      "steps_left pa' = steps_left pa1 - length (filter (\<lambda>turn. turn) sched)"
      "steps_left pb' = steps_left pb - length (filter (\<lambda>turn. \<not> turn) sched)"
      by blast
    with True adv left show ?thesis
      by (intro exI [of _ pa'] exI [of _ pb'] exI [of _ s']) simp
  next
    case False
    have "racing s0 c u b2 t2 b1 t1 pb pa s"
      using Cons.prems by (simp only: racing_sym)
    from racing_turn [OF assms(1-4) this]
    obtain pb1 s1 where adv: "advance (vote_at c u b2 t2 pb) s = (vote_at c u b2 t2 pb1, s1)"
      and inv': "racing s0 c u b2 t2 b1 t1 pb1 pa s1"
      and left: "steps_left pb1 = steps_left pb - 1"
      by blast
    have inv: "racing s0 c u b1 t1 b2 t2 pa pb1 s1"
      using inv' by (simp only: racing_sym)
    from Cons.IH [OF inv] obtain pa' pb' s' where
      "interleave sched (vote_at c u b1 t1 pa) (vote_at c u b2 t2 pb1) s1 =
             (vote_at c u b1 t1 pa', vote_at c u b2 t2 pb', s')"
      "racing s0 c u b1 t1 b2 t2 pa' pb' s'"
      "steps_left pa' = steps_left pa - length (filter (\<lambda>turn. turn) sched)"
      "steps_left pb' = steps_left pb1 - length (filter (\<lambda>turn. \<not> turn) sched)"
      by blast
    with False adv left show ?thesis
      by (intro exI [of _ pa'] exI [of _ pb'] exI [of _ s']) simp
  qed
qed

section \<open>The claims\<close>

text \<open>
  C1. After any sequence of operations on the tables that \<^verbatim>\<open>db.sync()\<close> created, the
  primary key of \<^verbatim>\<open>votes\<close> is the pair (userId, contentId), at most one vote row exists
  for any pair, and the insert of a second vote for a pair that has one is refused by
  the table itself, with a uniqueness error on the composite key and the tables
  unchanged, whatever the caller does.
\<close>

theorem vote_pair_primary_key:
  "primary_key_of (schema (run ops (sync reddit_models))) ''votes'' = [''userId'', ''contentId'']
   \<and> length (filter (\<lambda>v. vote_userId v = uid \<and> vote_contentId v = cid)
         (votes (run ops (sync reddit_models)))) \<le> 1
   \<and> (Vote_find uid cid (run ops (sync reddit_models)) \<noteq> None \<longrightarrow>
        Vote_create uid cid up now (run ops (sync reddit_models)) =
          (Inl (UniqueConstraintError ''votes'' [''userId'', ''contentId'']),
           run ops (sync reddit_models)))"
proof -
  let ?s = "run ops (sync reddit_models)"
  have ok: "consistent ?s"
    by (rule consistent_run [OF consistent_sync])
  then have sch: "schema ?s = reddit_models" and keys: "distinct (map vote_pair (votes ?s))"
    by (simp_all add: consistent_def)
  have "length (filter (\<lambda>v. vote_pair v = (uid, cid)) (votes ?s)) \<le> 1"
    using keys by (rule at_most_one_per_key)
  then have one: "length (filter (\<lambda>v. vote_userId v = uid \<and> vote_contentId v = cid) (votes ?s)) \<le> 1"
    by (simp add: vote_pair_def)
  have dup: "Vote_create uid cid up now ?s =
      (Inl (UniqueConstraintError ''votes'' [''userId'', ''contentId'']), ?s)"
    if "Vote_find uid cid ?s \<noteq> None"
  proof -
    from that have "(uid, cid) \<in> set (map vote_pair (votes ?s))"
      by (simp only: Vote_find_pair)
    then show ?thesis
      by (simp add: Vote_create_reddit [OF sch])
  qed
  show ?thesis
    using one dup by (simp add: sch votes_columns)
qed

theorem vote_pair_primary_key_witness:
  "length (filter (\<lambda>v. vote_userId v = 1 \<and> vote_contentId v = 1)
     (votes (run [CreateUser (Some ''alice'') (Some ''secret'') None 1,
                  CreateContent (Some ''http://x.com'') (Some ''X'') (Some 1) 2,
                  CreateVote 1 1 (Some True) 3] (sync reddit_models)))) = 1
   \<and> Vote_find 1 1 (run [CreateUser (Some ''alice'') (Some ''secret'') None 1,
                  CreateContent (Some ''http://x.com'') (Some ''X'') (Some 1) 2,
                  CreateVote 1 1 (Some True) 3] (sync reddit_models)) \<noteq> None
   \<and> fst (Vote_create 1 1 (Some False) 4
       (run [CreateUser (Some ''alice'') (Some ''secret'') None 1,
             CreateContent (Some ''http://x.com'') (Some ''X'') (Some 1) 2,
             CreateVote 1 1 (Some True) 3] (sync reddit_models))) =
     Inl (UniqueConstraintError ''votes'' [''userId'', ''contentId''])"
proof -
  let ?ops = "[CreateUser (Some ''alice'') (Some ''secret'') None 1,
               CreateContent (Some ''http://x.com'') (Some ''X'') (Some 1) 2,
               CreateVote 1 1 (Some True) 3]"
  have found: "Vote_find 1 1 (run ?ops (sync reddit_models)) \<noteq> None"
    unfolding example_vote by (simp add: Vote_find_def)
  have count: "length (filter (\<lambda>v. vote_userId v = 1 \<and> vote_contentId v = 1)
     (votes (run ?ops (sync reddit_models)))) = 1"
    unfolding example_vote by simp
  from vote_pair_primary_key [of ?ops 1 1 "Some False" 4] found count
  show ?thesis by simp
qed


text \<open>
  The claim C4 holds the three attributes of a user to be required. On the tables of
  reddit.js a user without an email is stored:
\<close>

theorem User_required_fields_counterexample:
  "User_create (Some ''alice'') (Some ''secret'') None 5 (sync reddit_models) =
     (Inr \<lparr>user_id = 1, username = Some ''alice'', password = Some ''secret'', email = None,
           user_createdAt = 5, user_updatedAt = 5\<rparr>,
      \<lparr>schema = reddit_models,
       users = [\<lparr>user_id = 1, username = Some ''alice'', password = Some ''secret'',
                 email = None, user_createdAt = 5, user_updatedAt = 5\<rparr>],
       contents = [], votes = [], next_user_id = 2, next_content_id = 1\<rparr>)"
  by (simp add: User_create_reddit sync_def)

text \<open>
  C4, as the schema has it. The attributes \<^verbatim>\<open>username\<close>, \<^verbatim>\<open>password\<close> and \<^verbatim>\<open>email\<close> of a
  user are optional: the three columns are nullable, and persisting a user with any of
  them present or missing succeeds and stores exactly the given values, a missing one
  as \<^verbatim>\<open>NULL\<close>.
\<close>

theorem User_fields_optional:
  assumes "schema s = reddit_models"
  shows "nullable (schema s) ''users'' ''username''
     \<and> nullable (schema s) ''users'' ''password''
     \<and> nullable (schema s) ''users'' ''email''
     \<and> fst (User_create un pw em now s) =
         Inr \<lparr>user_id = next_user_id s, username = un, password = pw, email = em,
              user_createdAt = now, user_updatedAt = now\<rparr>
     \<and> users (snd (User_create un pw em now s)) =
         users s @ [\<lparr>user_id = next_user_id s, username = un, password = pw, email = em,
                     user_createdAt = now, user_updatedAt = now\<rparr>]"
  using assms by (simp add: User_create_reddit users_columns)

theorem User_fields_optional_witness:
  "schema (sync reddit_models) = reddit_models
   \<and> fst (User_create None None None 5 (sync reddit_models)) =
       Inr \<lparr>user_id = 1, username = None, password = None, email = None,
            user_createdAt = 5, user_updatedAt = 5\<rparr>
   \<and> users (snd (User_create None None None 5 (sync reddit_models))) =
       [\<lparr>user_id = 1, username = None, password = None, email = None,
         user_createdAt = 5, user_updatedAt = 5\<rparr>]"
proof -
  have sch: "schema (sync reddit_models) = reddit_models"
    by (simp add: sync_def)
  from User_fields_optional [OF sch, of None None None 5] sch
  show ?thesis by (simp add: sync_def)
qed

text \<open>
  C9. No attribute of a user is declared unique, so creating a user never fails on a
  username that is in use: two creations with the same username, and any passwords and
  emails, both succeed, and two rows with different identifiers are stored.
\<close>

theorem username_not_unique:
  assumes "schema s = reddit_models"
  shows "\<not> unique_column (schema s) ''users'' ''username''
     \<and> \<not> unique_column (schema s) ''users'' ''password''
     \<and> \<not> unique_column (schema s) ''users'' ''email''
     \<and> fst (User_create un pw1 em1 t1 s) =
         Inr \<lparr>user_id = next_user_id s, username = un, password = pw1, email = em1,
              user_createdAt = t1, user_updatedAt = t1\<rparr>
     \<and> fst (User_create un pw2 em2 t2 (snd (User_create un pw1 em1 t1 s))) =
         Inr \<lparr>user_id = Suc (next_user_id s), username = un, password = pw2, email = em2,
              user_createdAt = t2, user_updatedAt = t2\<rparr>
     \<and> users (snd (User_create un pw2 em2 t2 (snd (User_create un pw1 em1 t1 s)))) =
         users s @ [\<lparr>user_id = next_user_id s, username = un, password = pw1, email = em1,
                     user_createdAt = t1, user_updatedAt = t1\<rparr>,
                    \<lparr>user_id = Suc (next_user_id s), username = un, password = pw2, email = em2,
                     user_createdAt = t2, user_updatedAt = t2\<rparr>]"
  using assms by (simp add: User_create_reddit users_columns)

theorem username_not_unique_witness:
  "schema (sync reddit_models) = reddit_models
   \<and> users (snd (User_create (Some ''alice'') (Some ''secret'') None 2
        (snd (User_create (Some ''alice'') (Some ''secret'') None 1 (sync reddit_models))))) =
       [\<lparr>user_id = 1, username = Some ''alice'', password = Some ''secret'', email = None,
         user_createdAt = 1, user_updatedAt = 1\<rparr>,
        \<lparr>user_id = 2, username = Some ''alice'', password = Some ''secret'', email = None,
         user_createdAt = 2, user_updatedAt = 2\<rparr>]"
proof -
  have sch: "schema (sync reddit_models) = reddit_models"
    by (simp add: sync_def)
  from username_not_unique [OF sch, of "Some ''alice''" "Some ''secret''" None 1 "Some ''secret''" None 2] sch
  show ?thesis by (simp add: sync_def)
qed

text \<open>
  C10. The column \<^verbatim>\<open>upVote\<close> of \<^verbatim>\<open>votes\<close> is a plain boolean column, nullable and with no
  default; a vote written without a direction, for an existing user and content item
  that have no vote yet, is accepted and stored with \<^verbatim>\<open>upVote\<close> absent.
\<close>

theorem Vote_without_direction:
  assumes "schema s = reddit_models"
    and "User_findById uid s \<noteq> None"
    and "Content_findById cid s \<noteq> None"
    and "Vote_find uid cid s = None"
  shows "find_column (schema s) ''votes'' ''upVote'' =
           Some \<lparr>col_name = ''upVote'', col_type = BOOLEAN, allowNull = True, isUnique = False,
                 autoIncrement = False, defaultValue = None\<rparr>
     \<and> Vote_create uid cid None now s =
         (Inr \<lparr>upVote = None, vote_createdAt = now, vote_updatedAt = now,
               vote_userId = uid, vote_contentId = cid\<rparr>,
          s\<lparr>votes := votes s @ [\<lparr>upVote = None, vote_createdAt = now, vote_updatedAt = now,
                                  vote_userId = uid, vote_contentId = cid\<rparr>]\<rparr>)"
proof -
  have "uid \<in> set (map user_id (users s))"
    using assms(2) by (simp only: User_findById_ids)
  moreover have "cid \<in> set (map content_id (contents s))"
    using assms(3) by (simp only: Content_findById_ids)
  moreover have "(uid, cid) \<notin> set (map vote_pair (votes s))"
    using assms(4) Vote_find_pair [of uid cid s] by simp
  moreover have "find_column reddit_models ''votes'' ''upVote'' =
           Some \<lparr>col_name = ''upVote'', col_type = BOOLEAN, allowNull = True, isUnique = False,
                 autoIncrement = False, defaultValue = None\<rparr>"
    by (simp add: schema_defs)
  ultimately show ?thesis
    by (simp add: Vote_create_reddit [OF assms(1)] assms(1))
qed

theorem Vote_without_direction_witness:
  "User_findById 1 (run [CreateUser (Some ''alice'') (Some ''secret'') None 1,
        CreateContent (Some ''http://x.com'') (Some ''X'') (Some 1) 2] (sync reddit_models)) \<noteq> None
   \<and> Content_findById 1 (run [CreateUser (Some ''alice'') (Some ''secret'') None 1,
        CreateContent (Some ''http://x.com'') (Some ''X'') (Some 1) 2] (sync reddit_models)) \<noteq> None
   \<and> Vote_find 1 1 (run [CreateUser (Some ''alice'') (Some ''secret'') None 1,
        CreateContent (Some ''http://x.com'') (Some ''X'') (Some 1) 2] (sync reddit_models)) = None
   \<and> votes (snd (Vote_create 1 1 None 3
        (run [CreateUser (Some ''alice'') (Some ''secret'') None 1,
              CreateContent (Some ''http://x.com'') (Some ''X'') (Some 1) 2] (sync reddit_models)))) =
       [\<lparr>upVote = None, vote_createdAt = 3, vote_updatedAt = 3,
         vote_userId = 1, vote_contentId = 1\<rparr>]"
proof -
  let ?s = "run [CreateUser (Some ''alice'') (Some ''secret'') None 1,
        CreateContent (Some ''http://x.com'') (Some ''X'') (Some 1) 2] (sync reddit_models)"
  have sch: "schema ?s = reddit_models"
    unfolding example_tables by simp
  have u: "User_findById 1 ?s \<noteq> None"
    unfolding example_tables by (simp add: User_findById_def)
  have c: "Content_findById 1 ?s \<noteq> None"
    unfolding example_tables by (simp add: Content_findById_def)
  have v: "Vote_find 1 1 ?s = None"
    unfolding example_tables by (simp add: Vote_find_def)
  have none: "votes ?s = []"
    unfolding example_tables by simp
  from Vote_without_direction [OF sch u c v, of 3] u c v none
  show ?thesis by simp
qed


text \<open>
  The claim C5 has the deletion of a user delete the content that user owns. On the
  tables of reddit.js the content stays, with no owner:
\<close>

theorem User_destroy_cascade_counterexample:
  "User_destroy 1
     (run [CreateUser (Some ''alice'') (Some ''secret'') None 1,
           CreateContent (Some ''http://x.com'') (Some ''X'') (Some 1) 2] (sync reddit_models)) =
     (Inr (),
      \<lparr>schema = reddit_models, users = [],
       contents = [\<lparr>content_id = 1, url = Some ''http://x.com'', title = Some ''X'',
                    content_createdAt = 2, content_updatedAt = 2, content_userId = None\<rparr>],
       votes = [], next_user_id = 2, next_content_id = 2\<rparr>)"
  unfolding example_tables by (simp add: User_destroy_reddit)

text \<open>
  C5, as the schema has it. On consistent tables, deleting a user deletes every vote
  that refers to that user and the user's row, and clears the owner of every content
  item the user owned: no content row is deleted, and the votes of other users on those
  items stay. Deleting a content item deletes the item and every vote that refers to
  it. Both deletions succeed and leave the tables consistent: the owner of every
  remaining content item is absent or an existing user, and every remaining vote refers
  to an existing user and an existing content item.
\<close>

theorem destroy_cascades_to_votes:
  assumes "consistent s"
  shows "User_destroy uid s =
       (Inr (), s\<lparr>contents := map (\<lambda>c. if content_userId c = Some uid
                                         then c\<lparr>content_userId := None\<rparr> else c) (contents s),
                 votes := filter (\<lambda>v. vote_userId v \<noteq> uid) (votes s),
                 users := filter (\<lambda>u. user_id u \<noteq> uid) (users s)\<rparr>)
     \<and> Content_destroy cid s =
       (Inr (), s\<lparr>contents := filter (\<lambda>c. content_id c \<noteq> cid) (contents s),
                 votes := filter (\<lambda>v. vote_contentId v \<noteq> cid) (votes s)\<rparr>)
     \<and> consistent (snd (User_destroy uid s))
     \<and> consistent (snd (Content_destroy cid s))"
proof -
  have sch: "schema s = reddit_models"
    using assms by (simp add: consistent_def)
  show ?thesis
    using User_destroy_reddit [OF sch, of uid] Content_destroy_reddit [OF assms, of cid]
      consistent_User_destroy [OF assms, of uid] consistent_Content_destroy [OF assms, of cid]
    by simp
qed

theorem destroy_cascades_to_votes_witness:
  "consistent (run [CreateUser (Some ''alice'') (Some ''secret'') None 1,
        CreateContent (Some ''http://x.com'') (Some ''X'') (Some 1) 2,
        CreateVote 1 1 (Some True) 3] (sync reddit_models))
   \<and> User_destroy 1 (run [CreateUser (Some ''alice'') (Some ''secret'') None 1,
        CreateContent (Some ''http://x.com'') (Some ''X'') (Some 1) 2,
        CreateVote 1 1 (Some True) 3] (sync reddit_models)) =
       (Inr (),
        \<lparr>schema = reddit_models, users = [],
         contents = [\<lparr>content_id = 1, url = Some ''http://x.com'', title = Some ''X'',
                      content_createdAt = 2, content_updatedAt = 2, content_userId = None\<rparr>],
         votes = [], next_user_id = 2, next_content_id = 2\<rparr>)
   \<and> Content_destroy 1 (run [CreateUser (Some ''alice'') (Some ''secret'') None 1,
        CreateContent (Some ''http://x.com'') (Some ''X'') (Some 1) 2,
        CreateVote 1 1 (Some True) 3] (sync reddit_models)) =
       (Inr (),
        \<lparr>schema = reddit_models,
         users = [\<lparr>user_id = 1, username = Some ''alice'', password = Some ''secret'',
                   email = None, user_createdAt = 1, user_updatedAt = 1\<rparr>],
         contents = [], votes = [], next_user_id = 2, next_content_id = 2\<rparr>)"
proof -
  let ?s = "run [CreateUser (Some ''alice'') (Some ''secret'') None 1,
        CreateContent (Some ''http://x.com'') (Some ''X'') (Some 1) 2,
        CreateVote 1 1 (Some True) 3] (sync reddit_models)"
  have ok: "consistent ?s"
    by (rule consistent_run [OF consistent_sync])
  from destroy_cascades_to_votes [OF ok, of 1 1] ok
  show ?thesis
    apply (simp only: example_vote)
    apply simp
    done
qed

text \<open>
  The claim C6 has no content row exist without an owner. The table accepts one:
\<close>

theorem Content_without_owner_counterexample:
  "Content_create (Some ''http://x.com'') (Some ''X'') None 3 (sync reddit_models) =
     (Inr \<lparr>content_id = 1, url = Some ''http://x.com'', title = Some ''X'',
           content_createdAt = 3, content_updatedAt = 3, content_userId = None\<rparr>,
      \<lparr>schema = reddit_models, users = [],
       contents = [\<lparr>content_id = 1, url = Some ''http://x.com'', title = Some ''X'',
                    content_createdAt = 3, content_updatedAt = 3, content_userId = None\<rparr>],
       votes = [], next_user_id = 1, next_content_id = 2\<rparr>)"
  by (simp add: Content_create_reddit sync_def dangling_def)

text \<open>
  C6, as the schema has it. A content item has at most one owner: \<^verbatim>\<open>contents\<close> has the
  single foreign key \<^verbatim>\<open>userId\<close>, to \<^verbatim>\<open>users\<close>, and the key is nullable, so the table itself
  does not require an owner. For every existing userId, and every url and title,
  \<^verbatim>\<open>createNewContent\<close> hands its callback a content record whose owner is that userId.
  The function is the run of its call, and that call makes exactly two requests: the
  lookup of the user, and a single insert that already carries the owner. The tables
  are untouched before the insert and hold the owned row after it: no row without an
  owner exists at any point of the call.
\<close>

theorem createNewContent_owner:
  assumes "schema s = reddit_models"
    and "User_findById userId s \<noteq> None"
  shows "map_option (\<lambda>m. map foreignKey (foreignKeys m)) (find_table (schema s) ''contents'') =
         Some [''userId'']
     \<and> find_reference (schema s) ''contents'' ''userId'' =
         Some \<lparr>foreignKey = ''userId'', referencesTable = ''users'',
               onDelete = SET_NULL, onUpdate = CASCADE\<rparr>
     \<and> nullable (schema s) ''contents'' ''userId''
     \<and> createNewContent userId u t callback now s =
         callback
           (Inr \<lparr>content_id = next_content_id s, url = Some u, title = Some t,
                 content_createdAt = now, content_updatedAt = now,
                 content_userId = Some userId\<rparr>)
           (s\<lparr>contents := contents s @
                 [\<lparr>content_id = next_content_id s, url = Some u, title = Some t,
                   content_createdAt = now, content_updatedAt = now,
                   content_userId = Some userId\<rparr>],
              next_content_id := Suc (next_content_id s)\<rparr>)
     \<and> createNewContent userId u t callback now s =
         (case complete (createNewContent_call userId u t now) s of (r, s') \<Rightarrow> callback r s')
     \<and> requests (createNewContent_call userId u t now) s =
         [FindUser userId, InsertContent (Some u) (Some t) (Some userId) now]
     \<and> stores (createNewContent_call userId u t now) s =
         [s, s,
          s\<lparr>contents := contents s @
                 [\<lparr>content_id = next_content_id s, url = Some u, title = Some t,
                   content_createdAt = now, content_updatedAt = now,
                   content_userId = Some userId\<rparr>],
            next_content_id := Suc (next_content_id s)\<rparr>]"
proof -
  have known: "userId \<in> set (map user_id (users s))"
    using assms(2) by (simp only: User_findById_ids)
  have one: "map_option (\<lambda>m. map foreignKey (foreignKeys m)) (find_table reddit_models ''contents'') =
         Some [''userId'']"
    by (simp add: schema_defs)
  obtain owner where owner: "User_findById userId s = Some owner"
    using assms(2) by blast
  have result: "createNewContent userId u t callback now s =
         callback
           (Inr \<lparr>content_id = next_content_id s, url = Some u, title = Some t,
                 content_createdAt = now, content_updatedAt = now,
                 content_userId = Some userId\<rparr>)
           (s\<lparr>contents := contents s @
                 [\<lparr>content_id = next_content_id s, url = Some u, title = Some t,
                   content_createdAt = now, content_updatedAt = now,
                   content_userId = Some userId\<rparr>],
              next_content_id := Suc (next_content_id s)\<rparr>)"
    using known owner
    by (simp add: createNewContent_def Content_create_reddit [OF assms(1)] dangling_def)
  have asked: "requests (createNewContent_call userId u t now) s =
         [FindUser userId, InsertContent (Some u) (Some t) (Some userId) now]"
    using known owner
    by (simp add: createNewContent_call_def Content_create_reddit [OF assms(1)] dangling_def)
  have seen: "stores (createNewContent_call userId u t now) s =
         [s, s,
          s\<lparr>contents := contents s @
                 [\<lparr>content_id = next_content_id s, url = Some u, title = Some t,
                   content_createdAt = now, content_updatedAt = now,
                   content_userId = Some userId\<rparr>],
            next_content_id := Suc (next_content_id s)\<rparr>]"
    using known owner
    by (simp add: createNewContent_call_def Content_create_reddit [OF assms(1)] dangling_def)
  show ?thesis
    using result asked seen complete_createNewContent_call [of userId u t callback now s]
    by (simp add: assms(1) one contents_columns)
qed

theorem createNewContent_owner_witness:
  "User_findById 1 (snd (User_create (Some ''alice'') (Some ''secret'') None 1 (sync reddit_models)))
     \<noteq> None
   \<and> requests (createNewContent_call 1 ''http://x.com'' ''X'' 2)
       (snd (User_create (Some ''alice'') (Some ''secret'') None 1 (sync reddit_models))) =
     [FindUser 1, InsertContent (Some ''http://x.com'') (Some ''X'') (Some 1) 2]
   \<and> createNewContent 1 ''http://x.com'' ''X'' Pair 2
       (snd (User_create (Some ''alice'') (Some ''secret'') None 1 (sync reddit_models))) =
     (Inr \<lparr>content_id = 1, url = Some ''http://x.com'', title = Some ''X'',
           content_createdAt = 2, content_updatedAt = 2, content_userId = Some 1\<rparr>,
      \<lparr>schema = reddit_models,
       users = [\<lparr>user_id = 1, username = Some ''alice'', password = Some ''secret'',
                 email = None, user_createdAt = 1, user_updatedAt = 1\<rparr>],
       contents = [\<lparr>content_id = 1, url = Some ''http://x.com'', title = Some ''X'',
                    content_createdAt = 2, content_updatedAt = 2, content_userId = Some 1\<rparr>],
       votes = [], next_user_id = 2, next_content_id = 2\<rparr>)"
proof -
  let ?s = "snd (User_create (Some ''alice'') (Some ''secret'') None 1 (sync reddit_models))"
  have s: "?s = \<lparr>schema = reddit_models,
       users = [\<lparr>user_id = 1, username = Some ''alice'', password = Some ''secret'',
                 email = None, user_createdAt = 1, user_updatedAt = 1\<rparr>],
       contents = [], votes = [], next_user_id = 2, next_content_id = 1\<rparr>"
    by (simp add: User_create_reddit sync_def)
  have sch: "schema ?s = reddit_models"
    unfolding s by simp
  have u: "User_findById 1 ?s \<noteq> None"
    unfolding s by (simp add: User_findById_def)
  from createNewContent_owner [OF sch u, of "''http://x.com''" "''X''" Pair 2] u
  show ?thesis
    apply (simp only: s)
    apply simp
    done
qed

text \<open>
  C3. For a userId that no user has, and every url and title, \<^verbatim>\<open>createNewContent\<close> hands
  its callback the error \<^verbatim>\<open>NotFound\<close> and the tables exactly as they were: no content
  row is inserted.
\<close>

theorem createNewContent_unknown_user:
  assumes "User_findById userId s = None"
  shows "createNewContent userId u t callback now s = callback (Inl NotFound) s"
  using assms by (simp add: createNewContent_def)

theorem createNewContent_unknown_user_witness:
  "User_findById 7 (sync reddit_models) = None
   \<and> createNewContent 7 ''http://x.com'' ''X'' Pair 2 (sync reddit_models) =
       (Inl NotFound, sync reddit_models)"
proof -
  have none: "User_findById 7 (sync reddit_models) = None"
    by (simp add: User_findById_def sync_def)
  from createNewContent_unknown_user [OF none, of "''http://x.com''" "''X''" Pair 2] none
  show ?thesis by simp
qed

text \<open>
  C2. For an existing user and an existing content item with no vote of that user on
  it yet, \<^verbatim>\<open>voteOnContent(contentId, userId, true)\<close> stores the upvote, and a following
  \<^verbatim>\<open>voteOnContent(contentId, userId, false)\<close> hands its callback \<^verbatim>\<open>DuplicateVote\<close> and leaves
  the tables as the first call left them: the vote found for the pair is still the
  upvote. \<^verbatim>\<open>DuplicateVote\<close> is a kind of its own, and no other failure of the insert of a
  vote is reported as it.
\<close>

theorem voteOnContent_duplicate:
  assumes "schema s = reddit_models"
    and "User_findById userId s \<noteq> None"
    and "Content_findById contentId s \<noteq> None"
    and "Vote_find userId contentId s = None"
  shows "voteOnContent contentId userId True callback1 t1 s =
         callback1
           (Inr \<lparr>upVote = Some True, vote_createdAt = t1, vote_updatedAt = t1,
                 vote_userId = userId, vote_contentId = contentId\<rparr>)
           (s\<lparr>votes := votes s @
                 [\<lparr>upVote = Some True, vote_createdAt = t1, vote_updatedAt = t1,
                   vote_userId = userId, vote_contentId = contentId\<rparr>]\<rparr>)
     \<and> voteOnContent contentId userId False callback2 t2
           (s\<lparr>votes := votes s @
                 [\<lparr>upVote = Some True, vote_createdAt = t1, vote_updatedAt = t1,
                   vote_userId = userId, vote_contentId = contentId\<rparr>]\<rparr>) =
         callback2 (Inl DuplicateVote)
           (s\<lparr>votes := votes s @
                 [\<lparr>upVote = Some True, vote_createdAt = t1, vote_updatedAt = t1,
                   vote_userId = userId, vote_contentId = contentId\<rparr>]\<rparr>)
     \<and> Vote_find userId contentId
           (s\<lparr>votes := votes s @
                 [\<lparr>upVote = Some True, vote_createdAt = t1, vote_updatedAt = t1,
                   vote_userId = userId, vote_contentId = contentId\<rparr>]\<rparr>) =
         Some \<lparr>upVote = Some True, vote_createdAt = t1, vote_updatedAt = t1,
               vote_userId = userId, vote_contentId = contentId\<rparr>
     \<and> DuplicateVote \<noteq> ConstraintViolation
     \<and> as_error (NotNullViolation ''votes'' ''upVote'') \<noteq> DuplicateVote
     \<and> as_error (ForeignKeyConstraintError ''votes'' ''userId'') \<noteq> DuplicateVote
     \<and> as_error (ForeignKeyConstraintError ''votes'' ''contentId'') \<noteq> DuplicateVote"
proof -
  let ?v = "\<lparr>upVote = Some True, vote_createdAt = t1, vote_updatedAt = t1,
             vote_userId = userId, vote_contentId = contentId\<rparr>"
  let ?s1 = "s\<lparr>votes := votes s @ [?v]\<rparr>"
  obtain voter where voter: "User_findById userId s = Some voter"
    using assms(2) by blast
  obtain item where item: "Content_findById contentId s = Some item"
    using assms(3) by blast
  have u: "userId \<in> set (map user_id (users s))"
    using assms(2) by (simp only: User_findById_ids)
  have c: "contentId \<in> set (map content_id (contents s))"
    using assms(3) by (simp only: Content_findById_ids)
  have fresh: "(userId, contentId) \<notin> set (map vote_pair (votes s))"
    using assms(4) Vote_find_pair [of userId contentId s] by simp
  have first: "voteOnContent contentId userId True callback1 t1 s = callback1 (Inr ?v) ?s1"
    using u c fresh
    by (simp add: voteOnContent_def voter item Vote_create_reddit [OF assms(1)])
  have sch1: "schema ?s1 = reddit_models"
    using assms(1) by simp
  have voter1: "User_findById userId ?s1 = Some voter"
    using voter by (simp add: User_findById_def)
  have item1: "Content_findById contentId ?s1 = Some item"
    using item by (simp add: Content_findById_def)
  have second: "voteOnContent contentId userId False callback2 t2 ?s1 =
      callback2 (Inl DuplicateVote) ?s1"
    by (simp add: voteOnContent_def voter1 item1 Vote_create_reddit [OF sch1] vote_pair_def)
  have "\<not> list_ex (\<lambda>v. vote_userId v = userId \<and> vote_contentId v = contentId) (votes s)"
    using assms(4) by (simp add: Vote_find_def find_None_iff list_ex_iff)
  then have stands: "Vote_find userId contentId ?s1 = Some ?v"
    by (simp add: Vote_find_def find_fresh)
  show ?thesis
    using first second stands by simp
qed

theorem voteOnContent_duplicate_witness:
  "User_findById 1 (run [CreateUser (Some ''alice'') (Some ''secret'') None 1,
        CreateContent (Some ''http://x.com'') (Some ''X'') (Some 1) 2] (sync reddit_models)) \<noteq> None
   \<and> Content_findById 1 (run [CreateUser (Some ''alice'') (Some ''secret'') None 1,
        CreateContent (Some ''http://x.com'') (Some ''X'') (Some 1) 2] (sync reddit_models)) \<noteq> None
   \<and> Vote_find 1 1 (run [CreateUser (Some ''alice'') (Some ''secret'') None 1,
        CreateContent (Some ''http://x.com'') (Some ''X'') (Some 1) 2] (sync reddit_models)) = None
   \<and> voteOnContent 1 1 False (\<lambda>r s. r) 4
       (voteOnContent 1 1 True (\<lambda>r s. s) 3
         (run [CreateUser (Some ''alice'') (Some ''secret'') None 1,
               CreateContent (Some ''http://x.com'') (Some ''X'') (Some 1) 2] (sync reddit_models))) =
     Inl DuplicateVote
   \<and> map upVote (votes (voteOnContent 1 1 False (\<lambda>r s. s) 4
       (voteOnContent 1 1 True (\<lambda>r s. s) 3
         (run [CreateUser (Some ''alice'') (Some ''secret'') None 1,
               CreateContent (Some ''http://x.com'') (Some ''X'') (Some 1) 2] (sync reddit_models))))) =
     [Some True]"
proof -
  let ?s = "run [CreateUser (Some ''alice'') (Some ''secret'') None 1,
        CreateContent (Some ''http://x.com'') (Some ''X'') (Some 1) 2] (sync reddit_models)"
  have sch: "schema ?s = reddit_models"
    unfolding example_tables by simp
  have u: "User_findById 1 ?s \<noteq> None"
    unfolding example_tables by (simp add: User_findById_def)
  have c: "Content_findById 1 ?s \<noteq> None"
    unfolding example_tables by (simp add: Content_findById_def)
  have v: "Vote_find 1 1 ?s = None"
    unfolding example_tables by (simp add: Vote_find_def)
  have none: "votes ?s = []"
    unfolding example_tables by simp
  from voteOnContent_duplicate [OF sch u c v, of "\<lambda>r s. s" 3 "\<lambda>r s. r" 4]
    voteOnContent_duplicate [OF sch u c v, of "\<lambda>r s. s" 3 "\<lambda>r s. s" 4] u c v none
  show ?thesis by simp
qed

text \<open>
  C7. On consistent tables, for every username and password, \<^verbatim>\<open>createNewUser\<close> appends
  exactly one row to \<^verbatim>\<open>users\<close> and hands it to the callback; the row has a generated
  identifier that no earlier row has, and \<^verbatim>\<open>createdAt\<close> and \<^verbatim>\<open>updatedAt\<close> are both set to
  the time of the call; looking that identifier up afterwards returns the same row.
\<close>

theorem createNewUser_creates:
  assumes "consistent s"
  shows "createNewUser name pass callback now s =
         callback
           (Inr \<lparr>user_id = next_user_id s, username = Some name, password = Some pass,
                 email = None, user_createdAt = now, user_updatedAt = now\<rparr>)
           (s\<lparr>users := users s @
                 [\<lparr>user_id = next_user_id s, username = Some name, password = Some pass,
                   email = None, user_createdAt = now, user_updatedAt = now\<rparr>],
              next_user_id := Suc (next_user_id s)\<rparr>)
     \<and> next_user_id s \<notin> set (map user_id (users s))
     \<and> User_findById (next_user_id s)
           (s\<lparr>users := users s @
                 [\<lparr>user_id = next_user_id s, username = Some name, password = Some pass,
                   email = None, user_createdAt = now, user_updatedAt = now\<rparr>],
              next_user_id := Suc (next_user_id s)\<rparr>) =
         Some \<lparr>user_id = next_user_id s, username = Some name, password = Some pass,
               email = None, user_createdAt = now, user_updatedAt = now\<rparr>"
proof -
  have sch: "schema s = reddit_models"
    using assms by (simp add: consistent_def)
  have below: "list_all (\<lambda>u. user_id u < next_user_id s) (users s)"
    using assms by (simp add: consistent_def)
  then have fresh: "next_user_id s \<notin> set (map user_id (users s))"
    by (auto simp: list_all_iff)
  have "\<not> list_ex (\<lambda>u. user_id u = next_user_id s) (users s)"
    using below by (auto simp: list_ex_iff list_all_iff)
  then have found: "find (\<lambda>u. user_id u = next_user_id s)
      (users s @ [\<lparr>user_id = next_user_id s, username = Some name, password = Some pass,
                   email = None, user_createdAt = now, user_updatedAt = now\<rparr>]) =
      Some \<lparr>user_id = next_user_id s, username = Some name, password = Some pass,
                   email = None, user_createdAt = now, user_updatedAt = now\<rparr>"
    by (simp add: find_fresh)
  show ?thesis
    using fresh found
    by (simp add: createNewUser_def User_create_reddit [OF sch] User_findById_def)
qed

theorem createNewUser_creates_witness:
  "consistent (sync reddit_models)
   \<and> createNewUser ''alice'' ''secret'' Pair 1 (sync reddit_models) =
     (Inr \<lparr>user_id = 1, username = Some ''alice'', password = Some ''secret'',
           email = None, user_createdAt = 1, user_updatedAt = 1\<rparr>,
      \<lparr>schema = reddit_models,
       users = [\<lparr>user_id = 1, username = Some ''alice'', password = Some ''secret'',
                 email = None, user_createdAt = 1, user_updatedAt = 1\<rparr>],
       contents = [], votes = [], next_user_id = 2, next_content_id = 1\<rparr>)
   \<and> User_findById 1 (snd (createNewUser ''alice'' ''secret'' Pair 1 (sync reddit_models))) =
     Some \<lparr>user_id = 1, username = Some ''alice'', password = Some ''secret'',
           email = None, user_createdAt = 1, user_updatedAt = 1\<rparr>"
proof -
  from createNewUser_creates [OF consistent_sync, of "''alice''" "''secret''" Pair 1] consistent_sync
  show ?thesis by (simp add: sync_def)
qed


text \<open>
  C8. For an existing user and an existing content item with no vote of that user on
  it yet, let two calls of \<^verbatim>\<open>voteOnContent\<close> for that pair, with opposite directions, run
  at once, the provider serving their requests in any order. Under every schedule the
  tables hold at most one vote for the pair. Under every schedule that lets both calls
  finish (three turns each), exactly one call succeeds, with its own vote as the one
  stored row, and the other fails with \<^verbatim>\<open>DuplicateVote\<close>. The calls that race are the
  calls whose run is \<^verbatim>\<open>voteOnContent\<close>.
\<close>

theorem concurrent_votes:
  assumes "schema s = reddit_models"
    and "User_findById userId s \<noteq> None"
    and "Content_findById contentId s \<noteq> None"
    and "Vote_find userId contentId s = None"
  shows "voteOnContent contentId userId isUpVote Pair now s =
           complete (voteOnContent_call contentId userId isUpVote now) s
     \<and> length (filter (\<lambda>v. vote_userId v = userId \<and> vote_contentId v = contentId)
          (votes (snd (snd (interleave sched
             (voteOnContent_call contentId userId isUpVote t1)
             (voteOnContent_call contentId userId (\<not> isUpVote) t2) s))))) \<le> 1
     \<and> (3 \<le> length (filter (\<lambda>turn. turn) sched)
          \<and> 3 \<le> length (filter (\<lambda>turn. \<not> turn) sched) \<longrightarrow>
        interleave sched
          (voteOnContent_call contentId userId isUpVote t1)
          (voteOnContent_call contentId userId (\<not> isUpVote) t2) s =
          (Finished (Inr \<lparr>upVote = Some isUpVote, vote_createdAt = t1, vote_updatedAt = t1,
                          vote_userId = userId, vote_contentId = contentId\<rparr>),
           Finished (Inl DuplicateVote),
           s\<lparr>votes := votes s @
               [\<lparr>upVote = Some isUpVote, vote_createdAt = t1, vote_updatedAt = t1,
                 vote_userId = userId, vote_contentId = contentId\<rparr>]\<rparr>)
        \<or> interleave sched
          (voteOnContent_call contentId userId isUpVote t1)
          (voteOnContent_call contentId userId (\<not> isUpVote) t2) s =
          (Finished (Inl DuplicateVote),
           Finished (Inr \<lparr>upVote = Some (\<not> isUpVote), vote_createdAt = t2, vote_updatedAt = t2,
                          vote_userId = userId, vote_contentId = contentId\<rparr>),
           s\<lparr>votes := votes s @
               [\<lparr>upVote = Some (\<not> isUpVote), vote_createdAt = t2, vote_updatedAt = t2,
                 vote_userId = userId, vote_contentId = contentId\<rparr>]\<rparr>))"
proof -
  let ?A = "voteOnContent_call contentId userId isUpVote t1"
  let ?B = "voteOnContent_call contentId userId (\<not> isUpVote) t2"
  have u: "userId \<in> set (map user_id (users s))"
    using assms(2) by (simp only: User_findById_ids)
  have c: "contentId \<in> set (map content_id (contents s))"
    using assms(3) by (simp only: Content_findById_ids)
  have fresh: "(userId, contentId) \<notin> set (map vote_pair (votes s))"
    using assms(4) Vote_find_pair [of userId contentId s] by simp
  then have none: "filter (\<lambda>v. vote_userId v = userId \<and> vote_contentId v = contentId) (votes s) = []"
    by (auto simp: filter_empty_conv vote_pair_def image_iff)
  have start: "racing s contentId userId isUpVote t1 (\<not> isUpVote) t2 AtUser AtUser s"
    by (simp add: racing_def written_def)
  obtain pa pb s' where
    run: "interleave sched (vote_at contentId userId isUpVote t1 AtUser)
            (vote_at contentId userId (\<not> isUpVote) t2 AtUser) s =
          (vote_at contentId userId isUpVote t1 pa, vote_at contentId userId (\<not> isUpVote) t2 pb, s')"
    and inv: "racing s contentId userId isUpVote t1 (\<not> isUpVote) t2 pa pb s'"
    and la: "steps_left pa = steps_left AtUser - length (filter (\<lambda>turn. turn) sched)"
    and lb: "steps_left pb = steps_left AtUser - length (filter (\<lambda>turn. \<not> turn) sched)"
    using racing_interleave [OF assms(1) u c fresh start, of sched] by blast
  have run': "interleave sched ?A ?B s =
      (vote_at contentId userId isUpVote t1 pa, vote_at contentId userId (\<not> isUpVote) t2 pb, s')"
    using run by simp
  have one: "length (filter (\<lambda>v. vote_userId v = userId \<and> vote_contentId v = contentId)
      (votes (snd (snd (interleave sched ?A ?B s))))) \<le> 1"
    unfolding run' using inv none by (auto simp: racing_def written_def)
  have both: "interleave sched ?A ?B s =
          (Finished (Inr \<lparr>upVote = Some isUpVote, vote_createdAt = t1, vote_updatedAt = t1,
                          vote_userId = userId, vote_contentId = contentId\<rparr>),
           Finished (Inl DuplicateVote),
           s\<lparr>votes := votes s @
               [\<lparr>upVote = Some isUpVote, vote_createdAt = t1, vote_updatedAt = t1,
                 vote_userId = userId, vote_contentId = contentId\<rparr>]\<rparr>)
        \<or> interleave sched ?A ?B s =
          (Finished (Inl DuplicateVote),
           Finished (Inr \<lparr>upVote = Some (\<not> isUpVote), vote_createdAt = t2, vote_updatedAt = t2,
                          vote_userId = userId, vote_contentId = contentId\<rparr>),
           s\<lparr>votes := votes s @
               [\<lparr>upVote = Some (\<not> isUpVote), vote_createdAt = t2, vote_updatedAt = t2,
                 vote_userId = userId, vote_contentId = contentId\<rparr>]\<rparr>)"
    if "3 \<le> length (filter (\<lambda>turn. turn) sched)" "3 \<le> length (filter (\<lambda>turn. \<not> turn) sched)"
  proof -
    have "steps_left pa = 0"
      using la that by simp
    then have enda: "pa = Stored \<or> pa = Refused"
      by (cases pa) simp_all
    have "steps_left pb = 0"
      using lb that by simp
    then have endb: "pb = Stored \<or> pb = Refused"
      by (cases pb) simp_all
    from enda endb have "(pa = Stored \<and> pb = Refused) \<or> (pa = Refused \<and> pb = Stored)"
      using inv by (auto simp: racing_def)
    then show ?thesis
      unfolding run' using inv by (auto simp: racing_def written_def)
  qed
  have seq: "voteOnContent contentId userId isUpVote Pair now s =
           complete (voteOnContent_call contentId userId isUpVote now) s"
    by (simp add: complete_voteOnContent_call [of contentId userId isUpVote Pair now s])
  show ?thesis
    using seq one both by blast
qed

theorem concurrent_votes_witness:
  "User_findById 1 (run [CreateUser (Some ''alice'') (Some ''secret'') None 1,
        CreateContent (Some ''http://x.com'') (Some ''X'') (Some 1) 2] (sync reddit_models)) \<noteq> None
   \<and> Content_findById 1 (run [CreateUser (Some ''alice'') (Some ''secret'') None 1,
        CreateContent (Some ''http://x.com'') (Some ''X'') (Some 1) 2] (sync reddit_models)) \<noteq> None
   \<and> Vote_find 1 1 (run [CreateUser (Some ''alice'') (Some ''secret'') None 1,
        CreateContent (Some ''http://x.com'') (Some ''X'') (Some 1) 2] (sync reddit_models)) = None
   \<and> interleave [True, False, False, True, False, True]
        (voteOnContent_call 1 1 True 3) (voteOnContent_call 1 1 False 4)
        (run [CreateUser (Some ''alice'') (Some ''secret'') None 1,
              CreateContent (Some ''http://x.com'') (Some ''X'') (Some 1) 2] (sync reddit_models)) =
       (Finished (Inl DuplicateVote),
        Finished (Inr \<lparr>upVote = Some False, vote_createdAt = 4, vote_updatedAt = 4,
                       vote_userId = 1, vote_contentId = 1\<rparr>),
        \<lparr>schema = reddit_models,
         users = [\<lparr>user_id = 1, username = Some ''alice'', password = Some ''secret'',
                   email = None, user_createdAt = 1, user_updatedAt = 1\<rparr>],
         contents = [\<lparr>content_id = 1, url = Some ''http://x.com'', title = Some ''X'',
                      content_createdAt = 2, content_updatedAt = 2, content_userId = Some 1\<rparr>],
         votes = [\<lparr>upVote = Some False, vote_createdAt = 4, vote_updatedAt = 4,
                   vote_userId = 1, vote_contentId = 1\<rparr>],
         next_user_id = 2, next_content_id = 2\<rparr>)"
proof -
  let ?s = "run [CreateUser (Some ''alice'') (Some ''secret'') None 1,
        CreateContent (Some ''http://x.com'') (Some ''X'') (Some 1) 2] (sync reddit_models)"
  have sch: "schema ?s = reddit_models"
    unfolding example_tables by simp
  have u: "User_findById 1 ?s \<noteq> None"
    unfolding example_tables by (simp add: User_findById_def)
  have c: "Content_findById 1 ?s \<noteq> None"
    unfolding example_tables by (simp add: Content_findById_def)
  have v: "Vote_find 1 1 ?s = None"
    unfolding example_tables by (simp add: Vote_find_def)
  have first: "fst (interleave [True, False, False, True, False, True]
        (voteOnContent_call 1 1 True 3) (voteOnContent_call 1 1 False 4) ?s) \<noteq>
      Finished (Inr \<lparr>upVote = Some True, vote_createdAt = 3, vote_updatedAt = 3,
                     vote_userId = 1, vote_contentId = 1\<rparr>)"
    unfolding example_tables
    by (simp add: advance_def voteOnContent_call_def vote_find_content_def vote_insert_def
        User_findById_def Content_findById_def Vote_create_reddit vote_pair_def)
  from concurrent_votes [OF sch u c v, of True 0 "[True, False, False, True, False, True]" 3 4]
  have "interleave [True, False, False, True, False, True]
          (voteOnContent_call 1 1 True 3) (voteOnContent_call 1 1 False 4) ?s =
          (Finished (Inl DuplicateVote),
           Finished (Inr \<lparr>upVote = Some False, vote_createdAt = 4, vote_updatedAt = 4,
                          vote_userId = 1, vote_contentId = 1\<rparr>),
           ?s\<lparr>votes := votes ?s @
               [\<lparr>upVote = Some False, vote_createdAt = 4, vote_updatedAt = 4,
                 vote_userId = 1, vote_contentId = 1\<rparr>]\<rparr>)"
    using first by auto
  then show ?thesis
    using u c v
    apply (simp only: example_tables)
    apply simp
    done
qed

end
